theory Spec2Isabelle
  imports Main "HOL-Library.Word"
begin

unbundle bit_operations_syntax

section \<open>The radix tree of util-radix-tree.c\<close>

text \<open>
  The development embeds the radix (Patricia) tree of \<^verbatim>\<open>src/util-radix-tree.c\<close>.
  Every C function that the stated properties depend on is translated into a HOL
  function of the same name. Undefined behaviour of the C code (reading through a null
  pointer, reading past the end of a buffer) and the calls of \<^verbatim>\<open>exit(EXIT_FAILURE)\<close>
  are results of their own, so a run of the model either ends in such an error or
  returns what the C function returns together with the updated tree.
\<close>

subsection \<open>Errors and basic types\<close>

datatype error = NullDeref | OutOfBounds | ExitFailure

type_synonym byte = "8 word"

text \<open>
  A \<^verbatim>\<open>void *user\<close> payload is a number; \<open>0\<close> is the null pointer. Netmasks
  (\<^verbatim>\<open>uint8_t\<close>), bit positions and bit lengths (\<^verbatim>\<open>uint16_t\<close>) are natural numbers;
  the one place where the C code narrows a 16-bit length to 8 bits is written out
  in \<open>SCRadixAddKey\<close>.
\<close>

text \<open>
  Modelled from the spec: the structures \<^verbatim>\<open>SCRadixUserData\<close>, \<^verbatim>\<open>SCRadixPrefix\<close>,
  \<^verbatim>\<open>SCRadixNode\<close> and \<^verbatim>\<open>SCRadixTree\<close> are declared in the header
  \<^verbatim>\<open>util-radix-tree.h\<close>, which is not among the sources. Their fields are the ones
  that the C file reads and writes, which are the ones of the specification's data
  model (a tree with its root; a node with its bit, prefix, netmask list, children and
  parent; a prefix with its stream, bit length, user data list and
  \<^verbatim>\<open>user_data_result\<close>; a user data entry with its netmask, user and successor).
  The fields \<^verbatim>\<open>bit\<close> and \<^verbatim>\<open>bitlen\<close> are taken to be as wide as the \<^verbatim>\<open>uint16_t\<close>
  bit lengths that the C file stores in them.
\<close>

datatype SCRadixUserData = SCRadixUserData (netmask: nat) (user: nat)

text \<open>The \<^verbatim>\<open>next\<close> pointers of the user data entries are the tail of a list.\<close>

record SCRadixPrefix =
  bitlen :: nat
  stream :: "byte list"
  user_data :: "SCRadixUserData list"
  user_data_result :: nat

subsection \<open>Bit test and chopping against a netmask\<close>

text \<open>
  Modelled from the spec: the macro \<^verbatim>\<open>SC_RADIX_BITTEST\<close> is declared in the header
  \<^verbatim>\<open>util-radix-tree.h\<close>, which is not among the sources. The specification describes
  the bit test as returning the bit selected by the mask (bit \<open>i\<close> lives in byte
  \<open>i / 8\<close> at mask \<open>0x80 >> (i mod 8)\<close>), that is, whether \<open>x & y\<close> is non-zero.
\<close>

definition SC_RADIX_BITTEST :: "byte \<Rightarrow> byte \<Rightarrow> bool" where
  "SC_RADIX_BITTEST x y = (x AND y \<noteq> 0)"

text \<open>The test of bit \<open>b\<close> as the code writes it:
  \<^verbatim>\<open>SC_RADIX_BITTEST(stream[b >> 3], (0x80 >> (b % 8)))\<close>.\<close>

definition stream_bit :: "byte list \<Rightarrow> nat \<Rightarrow> error + bool" where
  "stream_bit s b =
     (if b div 8 < length s
      then Inr (SC_RADIX_BITTEST (s ! (b div 8)) (drop_bit (b mod 8) 0x80))
      else Inl OutOfBounds)"

text \<open>The mask that the chopping loop computes for byte \<open>i\<close> (an \<^verbatim>\<open>int\<close> in C;
  \<^verbatim>\<open>-1 << k\<close> is \<open>- (2 ^ k)\<close>).\<close>

definition chop_mask :: "nat \<Rightarrow> nat \<Rightarrow> int" where
  "chop_mask i nm =
     (if (i + 1) * 8 > nm
      then (if (i + 1) * 8 - nm < 8 then - (2 ^ ((i + 1) * 8 - nm)) else 0)
      else - 1)"

text \<open>\<^verbatim>\<open>stream[i] &= mask\<close> for the bytes from index \<open>i\<close> on.\<close>

fun chop_from :: "nat \<Rightarrow> nat \<Rightarrow> byte list \<Rightarrow> byte list" where
  "chop_from i nm [] = []"
| "chop_from i nm (b # bs) = (b AND word_of_int (chop_mask i nm)) # chop_from (i + 1) nm bs"

text \<open>
  \<^verbatim>\<open>SCRadixChopIPAddressAgainstNetmask\<close> works in place on the first
  \<open>key_bitlen / 8\<close> bytes of the caller's buffer; the model returns the buffer.
  A null buffer is \<open>None\<close>.
\<close>

definition SCRadixChopIPAddressAgainstNetmask ::
  "byte list option \<Rightarrow> nat \<Rightarrow> nat \<Rightarrow> error + byte list option" where
  "SCRadixChopIPAddressAgainstNetmask key_stream nm key_bitlen =
     (let bytes = key_bitlen div 8 in
      if bytes = 0 then Inr key_stream
      else (case key_stream of
              None \<Rightarrow> Inl NullDeref
            | Some s \<Rightarrow>
                if length s < bytes then Inl OutOfBounds
                else Inr (Some (chop_from 0 nm (take bytes s) @ drop bytes s))))"

subsection \<open>Prefixes and their user data lists\<close>

definition SCRadixAllocSCRadixUserData :: "nat \<Rightarrow> nat \<Rightarrow> SCRadixUserData" where
  "SCRadixAllocSCRadixUserData nm u = SCRadixUserData nm u"

text \<open>
  \<^verbatim>\<open>SCRadixAppendToSCRadixUserDataList\<close>: the loop stops at the first entry whose
  netmask is smaller than the new one and links the new entry in front of it.
\<close>

fun SCRadixAppendToSCRadixUserDataList ::
  "SCRadixUserData \<Rightarrow> SCRadixUserData list \<Rightarrow> SCRadixUserData list" where
  "SCRadixAppendToSCRadixUserDataList new [] = [new]"
| "SCRadixAppendToSCRadixUserDataList new (t # ts) =
     (if netmask new > netmask t then new # t # ts
      else t # SCRadixAppendToSCRadixUserDataList new ts)"

definition SCRadixCreatePrefix ::
  "byte list option \<Rightarrow> nat \<Rightarrow> nat \<Rightarrow> nat \<Rightarrow> error + SCRadixPrefix option" where
  "SCRadixCreatePrefix key_stream key_bitlen u nm =
     (if key_bitlen mod 8 \<noteq> 0 \<or> key_bitlen = 0 then Inr None
      else (case key_stream of
              None \<Rightarrow> Inr None
            | Some s \<Rightarrow>
                if length s < key_bitlen div 8 then Inl OutOfBounds
                else Inr (Some \<lparr> bitlen = key_bitlen,
                                 stream = take (key_bitlen div 8) s,
                                 user_data = [SCRadixAllocSCRadixUserData nm u],
                                 user_data_result = 0 \<rparr>)))"

definition SCRadixAddNetmaskUserDataToPrefix ::
  "SCRadixPrefix option \<Rightarrow> nat \<Rightarrow> nat \<Rightarrow> error + SCRadixPrefix" where
  "SCRadixAddNetmaskUserDataToPrefix pfx nm u =
     (case pfx of
        None \<Rightarrow> Inl ExitFailure
      | Some p \<Rightarrow>
          if u = 0 then Inl ExitFailure
          else Inr (p\<lparr> user_data :=
                 SCRadixAppendToSCRadixUserDataList (SCRadixAllocSCRadixUserData nm u)
                   (user_data p) \<rparr>))"

text \<open>The loop of \<^verbatim>\<open>SCRadixRemoveNetmaskUserDataFromPrefix\<close> unlinks the first
  entry with the netmask.\<close>

fun remove_user_data :: "nat \<Rightarrow> SCRadixUserData list \<Rightarrow> SCRadixUserData list" where
  "remove_user_data nm [] = []"
| "remove_user_data nm (t # ts) =
     (if netmask t = nm then ts else t # remove_user_data nm ts)"

definition SCRadixRemoveNetmaskUserDataFromPrefix ::
  "SCRadixPrefix option \<Rightarrow> nat \<Rightarrow> error + SCRadixPrefix" where
  "SCRadixRemoveNetmaskUserDataFromPrefix pfx nm =
     (case pfx of
        None \<Rightarrow> Inl ExitFailure
      | Some p \<Rightarrow> Inr (p\<lparr> user_data := remove_user_data nm (user_data p) \<rparr>))"

fun contains_netmask :: "SCRadixUserData list \<Rightarrow> nat \<Rightarrow> bool" where
  "contains_netmask [] nm = False"
| "contains_netmask (t # ts) nm = (if netmask t = nm then True else contains_netmask ts nm)"

definition SCRadixPrefixContainNetmask :: "SCRadixPrefix option \<Rightarrow> nat \<Rightarrow> bool" where
  "SCRadixPrefixContainNetmask pfx nm =
     (case pfx of None \<Rightarrow> False | Some p \<Rightarrow> contains_netmask (user_data p) nm)"

definition SCRadixPrefixNetmaskCount :: "SCRadixPrefix option \<Rightarrow> nat" where
  "SCRadixPrefixNetmaskCount pfx =
     (case pfx of None \<Rightarrow> 0 | Some p \<Rightarrow> length (user_data p))"

text \<open>
  \<^verbatim>\<open>SCRadixPrefixContainNetmaskAndSetUserData\<close> returns 1 or 0 (here a truth value)
  and may write \<^verbatim>\<open>user_data_result\<close>; the model returns the prefix as well. With
  \<open>exact_match\<close> set, the C code reads \<^verbatim>\<open>user_data->netmask\<close> without a null check.
\<close>

definition SCRadixPrefixContainNetmaskAndSetUserData ::
  "SCRadixPrefix option \<Rightarrow> nat \<Rightarrow> bool \<Rightarrow> error + (bool \<times> SCRadixPrefix option)" where
  "SCRadixPrefixContainNetmaskAndSetUserData pfx bl exact_match =
     (case pfx of
        None \<Rightarrow> Inr (False, None)
      | Some p \<Rightarrow>
          if exact_match then
            (case user_data p of
               [] \<Rightarrow> Inl NullDeref
             | ud # rest \<Rightarrow>
                 if netmask ud = bl
                 then Inr (True, Some (p\<lparr> user_data_result := user ud \<rparr>))
                 else Inr (False, Some p))
          else
            (case user_data p of
               [] \<Rightarrow> Inr (False, Some p)
             | ud # rest \<Rightarrow>
                 if netmask ud = bl then
                   (case rest of
                      [] \<Rightarrow> Inr (False, Some p)
                    | nxt # rest' \<Rightarrow> Inr (True, Some (p\<lparr> user_data_result := user nxt \<rparr>)))
                 else Inr (True, Some (p\<lparr> user_data_result := user ud \<rparr>))))"

subsection \<open>Nodes, trees and node pointers\<close>

text \<open>
  A node owns its prefix and its two subtrees, so a node is a value that contains
  them. The array \<^verbatim>\<open>netmasks\<close> is \<open>None\<close> when the pointer is null and otherwise
  the allocated block; \<^verbatim>\<open>netmask_cnt\<close> counts the entries in use. The field
  \<^verbatim>\<open>bit\<close> is called \<open>bit_pos\<close>.
\<close>

datatype SCRadixNode =
  SCRadixNode (bit_pos: nat) (prefix: "SCRadixPrefix option") (netmask_cnt: nat)
    (netmasks: "nat list option") (left: "SCRadixNode option") (right: "SCRadixNode option")

text \<open>The tree is its \<^verbatim>\<open>head\<close> pointer; the \<^verbatim>\<open>Free\<close> callback only releases
  payloads and is left out. The pointer to the tree itself is never null in the model,
  so the branches of the C functions for \<^verbatim>\<open>tree == NULL\<close> are left out too.\<close>

type_synonym SCRadixTree = "SCRadixNode option"

text \<open>
  The C code keeps \<^verbatim>\<open>parent\<close> pointers: every assignment to a \<^verbatim>\<open>left\<close> or
  \<^verbatim>\<open>right\<close> field of a node in the tree comes with the matching assignment to the
  child's \<^verbatim>\<open>parent\<close>. A pointer to a node of the tree is therefore the list of the
  steps that lead from the node up to the head: the first step says on which side of its
  parent the node hangs, the rest is the pointer to the parent, and the empty list
  points to the head (whose \<^verbatim>\<open>parent\<close> is null).
\<close>

datatype dir = GoLeft | GoRight

type_synonym node_ptr = "dir list"

fun child :: "dir \<Rightarrow> SCRadixNode \<Rightarrow> SCRadixNode option" where
  "child GoLeft n = left n"
| "child GoRight n = right n"

fun set_child :: "dir \<Rightarrow> SCRadixNode option \<Rightarrow> SCRadixNode \<Rightarrow> SCRadixNode" where
  "set_child GoLeft c (SCRadixNode b pfx cnt nms l r) = SCRadixNode b pfx cnt nms c r"
| "set_child GoRight c (SCRadixNode b pfx cnt nms l r) = SCRadixNode b pfx cnt nms l c"

fun node_at :: "SCRadixNode option \<Rightarrow> dir list \<Rightarrow> SCRadixNode option" where
  "node_at t [] = t"
| "node_at t (d # ds) = (case t of None \<Rightarrow> None | Some n \<Rightarrow> node_at (child d n) ds)"

definition deref :: "SCRadixTree \<Rightarrow> node_ptr \<Rightarrow> SCRadixNode option" where
  "deref t p = node_at t (rev p)"

text \<open>\<open>update_at ds f t\<close> replaces the subtree found along \<open>ds\<close> (from the head
  downwards) by \<open>f\<close> of it.\<close>

fun update_at ::
  "dir list \<Rightarrow> (SCRadixNode \<Rightarrow> SCRadixNode option) \<Rightarrow> SCRadixNode option \<Rightarrow> SCRadixNode option" where
  "update_at [] f t = (case t of None \<Rightarrow> None | Some n \<Rightarrow> f n)"
| "update_at (d # ds) f t =
     (case t of None \<Rightarrow> None
      | Some n \<Rightarrow> Some (set_child d (update_at ds f (child d n)) n))"

definition store :: "SCRadixTree \<Rightarrow> node_ptr \<Rightarrow> (SCRadixNode \<Rightarrow> SCRadixNode option) \<Rightarrow> SCRadixTree" where
  "store t p f = update_at (rev p) f t"

text \<open>\<^verbatim>\<open>SCRadixCreateNode\<close>: a zeroed node.\<close>

definition SCRadixCreateNode :: SCRadixNode where
  "SCRadixCreateNode = SCRadixNode 0 None 0 None None None"

text \<open>
  The allocator never fails for want of memory in the model (the C code leaves the
  process when it does), and \<^verbatim>\<open>malloc(0)\<close> and \<^verbatim>\<open>realloc(NULL, 0)\<close> return a valid block
  of size zero. \<open>realloc\<close> is the block that the call returns: it keeps the old contents up
  to the new size, and new cells hold 0 until the code writes them. The one call that does
  not return a block is \<^verbatim>\<open>realloc\<close> of an existing block to the size zero, which frees
  the block and returns the null pointer (\<open>realloc_null\<close>); the sizes of the calls in
  \<^verbatim>\<open>SCRadixAddKey\<close> and \<^verbatim>\<open>SCRadixRemoveNetblockEntry\<close> are positive, the size of the call
  in \<^verbatim>\<open>SCRadixTransferNetmasksBWNodes\<close> can be zero.
\<close>

definition realloc :: "nat list option \<Rightarrow> nat \<Rightarrow> nat list" where
  "realloc a n =
     (let old = (case a of None \<Rightarrow> [] | Some xs \<Rightarrow> xs)
      in take n old @ replicate (n - length old) 0)"

definition realloc_null :: "nat list option \<Rightarrow> nat \<Rightarrow> bool" where
  "realloc_null a n = (a \<noteq> None \<and> n = 0)"

subsection \<open>Insertion\<close>

text \<open>
  The loop that puts a netmask into the array of a node
  (\<^verbatim>\<open>for (i = node->netmask_cnt - 2; i >= 0; i--)\<close>); the argument \<open>k\<close> is \<open>i + 1\<close>.
\<close>

fun netmask_shift :: "nat \<Rightarrow> nat \<Rightarrow> nat list \<Rightarrow> nat list" where
  "netmask_shift nm k xs =
     (if k = 0 then xs
      else if nm < xs ! (k - 1) then xs[k := nm]
      else netmask_shift nm (k - 1) (xs[k := xs ! (k - 1), k - 1 := nm]))"

declare netmask_shift.simps [simp del]

text \<open>
  The statements from \<^verbatim>\<open>node->netmask_cnt++\<close> to the end of that loop, which occur
  twice in \<^verbatim>\<open>SCRadixAddKey\<close>.
\<close>

definition add_netmask :: "nat \<Rightarrow> SCRadixNode \<Rightarrow> SCRadixNode" where
  "add_netmask nm n =
     (let cnt = netmask_cnt n + 1;
          arr = realloc (netmasks n) cnt
      in if cnt = 1
         then SCRadixNode (bit_pos n) (prefix n) cnt (Some (arr[0 := nm])) (left n) (right n)
         else SCRadixNode (bit_pos n) (prefix n) cnt
                (Some (netmask_shift nm (cnt - 1) (arr[cnt - 1 := nm]))) (left n) (right n))"

text \<open>
  \<^verbatim>\<open>while (parent != NULL && netmask < (parent->bit + 1))\<close>: the walk towards the head
  that looks for the node which takes the netmask. The pointers handed to it come from a
  walk down the same tree, so the parent of a non-empty pointer exists.
\<close>

fun netmask_walk_up :: "SCRadixTree \<Rightarrow> nat \<Rightarrow> node_ptr \<Rightarrow> node_ptr" where
  "netmask_walk_up t nm [] = []"
| "netmask_walk_up t nm (d # ps) =
     (case deref t ps of
        None \<Rightarrow> d # ps
      | Some parent \<Rightarrow> if nm < bit_pos parent + 1 then netmask_walk_up t nm ps else d # ps)"

text \<open>\<^verbatim>\<open>while (parent && differ_bit <= parent->bit)\<close>.\<close>

fun differ_walk_up :: "SCRadixTree \<Rightarrow> nat \<Rightarrow> node_ptr \<Rightarrow> node_ptr" where
  "differ_walk_up t differ_bit [] = []"
| "differ_walk_up t differ_bit (d # ps) =
     (case deref t ps of
        None \<Rightarrow> d # ps
      | Some parent \<Rightarrow>
          if differ_bit \<le> bit_pos parent then differ_walk_up t differ_bit ps else d # ps)"

text \<open>The walk down of \<^verbatim>\<open>SCRadixAddKey\<close>
  (\<^verbatim>\<open>while (node->bit < bitlen || node->prefix == NULL)\<close>); \<open>p\<close> points to the node.\<close>

fun add_walk_down :: "byte list \<Rightarrow> nat \<Rightarrow> SCRadixNode \<Rightarrow> node_ptr \<Rightarrow> error + node_ptr" where
  "add_walk_down s bl (SCRadixNode b pfx cnt nms l r) p =
     (if b < bl \<or> pfx = None then
        (if bl < b then
           (case r of None \<Rightarrow> Inr p | Some rn \<Rightarrow> add_walk_down s bl rn (GoRight # p))
         else
           (case stream_bit s b of
              Inl e \<Rightarrow> Inl e
            | Inr True \<Rightarrow>
                (case r of None \<Rightarrow> Inr p | Some rn \<Rightarrow> add_walk_down s bl rn (GoRight # p))
            | Inr False \<Rightarrow>
                (case l of None \<Rightarrow> Inr p | Some ln \<Rightarrow> add_walk_down s bl ln (GoLeft # p))))
      else Inr p)"

text \<open>The table that turns the doubled XOR of two bytes into the offset of their first
  differing bit.\<close>

definition differ_offset :: "nat \<Rightarrow> nat" where
  "differ_offset temp =
     (if temp \<ge> 256 then 0 else if temp \<ge> 128 then 1 else if temp \<ge> 64 then 2
      else if temp \<ge> 32 then 3 else if temp \<ge> 16 then 4 else if temp \<ge> 8 then 5
      else if temp \<ge> 4 then 6 else if temp \<ge> 2 then 7 else 0)"

text \<open>\<^verbatim>\<open>for (i = 0; (i * 8) < check_bit; i++)\<close>: the first bit in which the new stream
  and the stream of the bottom node differ.\<close>

function first_differ :: "nat \<Rightarrow> nat \<Rightarrow> nat \<Rightarrow> byte list \<Rightarrow> byte list \<Rightarrow> error + nat" where
  "first_differ check_bit differ_bit i s bs =
     (if i * 8 < check_bit then
        (if i < length s \<and> i < length bs then
           (let temp = unat ((s ! i) XOR (bs ! i)) in
            if temp = 0 then first_differ check_bit ((i + 1) * 8) (i + 1) s bs
            else Inr (i * 8 + differ_offset (temp * 2)))
         else Inl OutOfBounds)
      else Inr differ_bit)"
  by pat_completeness auto
termination
  by (relation "measure (\<lambda>(check_bit, differ_bit, i, s, bs). check_bit - i * 8)") auto

declare first_differ.simps [simp del]

text \<open>
  The first loop of the branch that creates an intermediate node
  (\<^verbatim>\<open>if (node->netmasks[i] < differ_bit + 1) break;\<close>): the number of leading
  entries that are not below \<open>differ_bit + 1\<close>.
\<close>

fun first_below :: "nat \<Rightarrow> nat list \<Rightarrow> nat" where
  "first_below differ_bit [] = 0"
| "first_below differ_bit (x # xs) =
     (if x < differ_bit + 1 then 0 else Suc (first_below differ_bit xs))"

text \<open>
  The transfer of netmasks from \<open>node\<close> to the new intermediate node: the entries
  from index \<open>i\<close> on are copied into a fresh block of the intermediate node and
  \<open>node\<close> keeps the first \<open>i\<close>. The result is the node, the count and the block of
  the intermediate node.
\<close>

definition split_netmasks ::
  "nat \<Rightarrow> SCRadixNode \<Rightarrow> error + (SCRadixNode \<times> nat \<times> nat list option)" where
  "split_netmasks differ_bit n =
     (case netmasks n of
        None \<Rightarrow> Inr (n, 0, None)
      | Some arr \<Rightarrow>
          if length arr < netmask_cnt n then Inl OutOfBounds
          else
            (let cnt = netmask_cnt n;
                 i = first_below differ_bit (take cnt arr)
             in Inr (SCRadixNode (bit_pos n) (prefix n) i (if i = 0 then None else Some arr)
                       (left n) (right n),
                     cnt - i, Some (take (cnt - i) (drop i arr)))))"

definition set_prefix :: "SCRadixPrefix option \<Rightarrow> SCRadixNode \<Rightarrow> SCRadixNode" where
  "set_prefix pfx n =
     SCRadixNode (bit_pos n) pfx (netmask_cnt n) (netmasks n) (left n) (right n)"

text \<open>The very first element of the tree.\<close>

definition add_first_node :: "SCRadixPrefix \<Rightarrow> nat \<Rightarrow> SCRadixNode" where
  "add_first_node pfx nm =
     (if nm = 255 \<or> nm = 32 \<or> nm = 128
      then SCRadixNode (bitlen pfx) (Some pfx) 0 None None None
      else SCRadixNode (bitlen pfx) (Some pfx) 1 (Some ((realloc None 1)[0 := nm])) None None)"

text \<open>
  The walk down to the bottom node, the first differing bit (clamped to
  \<open>check_bit\<close>) and the walk up to the place of the new node. The result is the bottom
  node, \<open>differ_bit\<close> and the pointer \<open>node\<close>.
\<close>

definition add_locate ::
  "SCRadixTree \<Rightarrow> SCRadixNode \<Rightarrow> byte list \<Rightarrow> nat \<Rightarrow> error + (SCRadixNode \<times> nat \<times> node_ptr)" where
  "add_locate t hd_node s bl =
     (case add_walk_down s bl hd_node [] of
        Inl e \<Rightarrow> Inl e
      | Inr bp \<Rightarrow>
          (case deref t bp of
             None \<Rightarrow> Inl NullDeref
           | Some bottom \<Rightarrow>
               (let check_bit = (if bit_pos bottom < bl then bit_pos bottom else bl) in
                case (case prefix bottom of
                        None \<Rightarrow> if 0 < check_bit then Inl NullDeref else Inr 0
                      | Some bpfx \<Rightarrow> first_differ check_bit 0 0 s (stream bpfx)) of
                  Inl e \<Rightarrow> Inl e
                | Inr d \<Rightarrow>
                    (let differ_bit = (if check_bit < d then check_bit else d)
                     in Inr (bottom, differ_bit, differ_walk_up t differ_bit bp)))))"

text \<open>
  The branch \<^verbatim>\<open>if (differ_bit == bitlen && node->bit == bitlen)\<close>: the node for the
  stream exists. The result is the returned pointer (\<open>None\<close> is the null pointer) and
  the tree. After the walk up, the C variable \<open>node\<close> is the node that took the
  netmask, and \<^verbatim>\<open>new_node\<close> is still null where the branch returns it.
\<close>

definition add_existing ::
  "SCRadixTree \<Rightarrow> node_ptr \<Rightarrow> SCRadixNode \<Rightarrow> SCRadixPrefix \<Rightarrow> nat \<Rightarrow> nat
     \<Rightarrow> error + (node_ptr option \<times> SCRadixTree)" where
  "add_existing t p node pfx u nm =
     (case prefix node of
        Some npfx \<Rightarrow>
          if SCRadixPrefixContainNetmask (Some npfx) nm then Inr (Some p, t)
          else
            (case SCRadixAddNetmaskUserDataToPrefix (Some npfx) nm u of
               Inl e \<Rightarrow> Inl e
             | Inr npfx' \<Rightarrow>
                 (let t1 = store t p (\<lambda>n. Some (set_prefix (Some npfx') n)) in
                  if nm = 255 \<or> nm = 32 \<or> nm = 128 then Inr (Some p, t1)
                  else
                    (let q = netmask_walk_up t1 nm p in
                     case deref t1 q of
                       None \<Rightarrow> Inl NullDeref
                     | Some target \<Rightarrow>
                         (let t2 = store t1 q (\<lambda>n. Some (add_netmask nm n)) in
                          if netmask_cnt target + 1 = 1 then Inr (None, t2)
                          else Inr (Some q, t2)))))
      | None \<Rightarrow>
          (case SCRadixCreatePrefix (Some (stream pfx)) (bitlen pfx) u 255 of
             Inl e \<Rightarrow> Inl e
           | Inr np \<Rightarrow> Inr (Some p, store t p (\<lambda>n. Some (set_prefix np n)))))"

text \<open>
  The two branches that create a leaf for the new key: the key is a prefix of the
  bottom node's stream (\<^verbatim>\<open>differ_bit == bitlen\<close>) and the leaf goes above \<open>node\<close>, or
  an intermediate node with \<^verbatim>\<open>bit = differ_bit\<close> takes \<open>node\<close> and the leaf as its
  children. The result is the tree and the pointer to the new leaf.
\<close>

definition add_splice ::
  "SCRadixTree \<Rightarrow> node_ptr \<Rightarrow> SCRadixNode \<Rightarrow> SCRadixNode \<Rightarrow> SCRadixPrefix \<Rightarrow> nat \<Rightarrow> nat
     \<Rightarrow> error + (SCRadixTree \<times> node_ptr)" where
  "add_splice t p node bottom pfx bl differ_bit =
     (if differ_bit = bl then
        (case prefix bottom of
           None \<Rightarrow> Inl NullDeref
         | Some bpfx \<Rightarrow>
             (case stream_bit (stream bpfx) differ_bit of
                Inl e \<Rightarrow> Inl e
              | Inr b \<Rightarrow>
                  Inr (store t p (\<lambda>_. Some (SCRadixNode (bitlen pfx) (Some pfx) 0 None
                                   (if b then None else Some node)
                                   (if b then Some node else None))), p)))
      else
        (case split_netmasks differ_bit node of
           Inl e \<Rightarrow> Inl e
         | Inr (node', inter_cnt, inter_netmasks) \<Rightarrow>
             (case stream_bit (stream pfx) differ_bit of
                Inl e \<Rightarrow> Inl e
              | Inr b \<Rightarrow>
                  (let new_node = SCRadixNode (bitlen pfx) (Some pfx) 0 None None None;
                       inter_node = SCRadixNode differ_bit None inter_cnt inter_netmasks
                                      (if b then Some node' else Some new_node)
                                      (if b then Some new_node else Some node')
                   in Inr (store t p (\<lambda>_. Some inter_node),
                           (if b then GoRight else GoLeft) # p)))))"

text \<open>\<^verbatim>\<open>if (netmask != 255 && netmask != 32 && netmask != 128)\<close>: insert the netmask into
  the tree, starting at the new leaf.\<close>

definition register_netmask :: "SCRadixTree \<Rightarrow> node_ptr \<Rightarrow> nat \<Rightarrow> SCRadixTree" where
  "register_netmask t new_ptr nm =
     (if nm \<noteq> 255 \<and> nm \<noteq> 32 \<and> nm \<noteq> 128
      then store t (netmask_walk_up t nm new_ptr) (\<lambda>n. Some (add_netmask nm n))
      else t)"

text \<open>
  \<^verbatim>\<open>SCRadixAddKey\<close>. The result is the caller's key buffer after the call (it is
  chopped in place), the returned node pointer and the tree. The local variable
  \<^verbatim>\<open>uint8_t bitlen\<close> receives the 16-bit \<^verbatim>\<open>prefix->bitlen\<close>, hence \<open>mod 256\<close>.
\<close>

definition SCRadixAddKey ::
  "byte list option \<Rightarrow> nat \<Rightarrow> SCRadixTree \<Rightarrow> nat \<Rightarrow> nat
     \<Rightarrow> error + (byte list option \<times> node_ptr option \<times> SCRadixTree)" where
  "SCRadixAddKey key_stream key_bitlen tree u nm =
     (case SCRadixChopIPAddressAgainstNetmask key_stream nm key_bitlen of
        Inl e \<Rightarrow> Inl e
      | Inr ks \<Rightarrow>
          (case SCRadixCreatePrefix ks key_bitlen u nm of
             Inl e \<Rightarrow> Inl e
           | Inr None \<Rightarrow> Inr (ks, None, tree)
           | Inr (Some pfx) \<Rightarrow>
               (case tree of
                  None \<Rightarrow> Inr (ks, Some [], Some (add_first_node pfx nm))
                | Some hd_node \<Rightarrow>
                    (let bl = bitlen pfx mod 256 in
                     case add_locate tree hd_node (stream pfx) bl of
                       Inl e \<Rightarrow> Inl e
                     | Inr (bottom, differ_bit, p) \<Rightarrow>
                         (case deref tree p of
                            None \<Rightarrow> Inl NullDeref
                          | Some node \<Rightarrow>
                              if differ_bit = bl \<and> bit_pos node = bl then
                                (case add_existing tree p node pfx u nm of
                                   Inl e \<Rightarrow> Inl e
                                 | Inr (res, t') \<Rightarrow> Inr (ks, res, t'))
                              else
                                (case add_splice tree p node bottom pfx bl differ_bit of
                                   Inl e \<Rightarrow> Inl e
                                 | Inr (t1, new_ptr) \<Rightarrow>
                                     Inr (ks, Some new_ptr, register_netmask t1 new_ptr nm)))))))"

definition SCRadixAddKeyGeneric ::
  "byte list option \<Rightarrow> nat \<Rightarrow> SCRadixTree \<Rightarrow> nat
     \<Rightarrow> error + (byte list option \<times> node_ptr option \<times> SCRadixTree)" where
  "SCRadixAddKeyGeneric key_stream key_bitlen tree u = SCRadixAddKey key_stream key_bitlen tree u 255"

definition SCRadixAddKeyIPV4 ::
  "byte list option \<Rightarrow> SCRadixTree \<Rightarrow> nat
     \<Rightarrow> error + (byte list option \<times> node_ptr option \<times> SCRadixTree)" where
  "SCRadixAddKeyIPV4 key_stream tree u = SCRadixAddKey key_stream 32 tree u 32"

definition SCRadixAddKeyIPV6 ::
  "byte list option \<Rightarrow> SCRadixTree \<Rightarrow> nat
     \<Rightarrow> error + (byte list option \<times> node_ptr option \<times> SCRadixTree)" where
  "SCRadixAddKeyIPV6 key_stream tree u = SCRadixAddKey key_stream 128 tree u 128"

definition SCRadixAddKeyIPV4Netblock ::
  "byte list option \<Rightarrow> SCRadixTree \<Rightarrow> nat \<Rightarrow> nat
     \<Rightarrow> error + (byte list option \<times> node_ptr option \<times> SCRadixTree)" where
  "SCRadixAddKeyIPV4Netblock key_stream tree u nm = SCRadixAddKey key_stream 32 tree u nm"

definition SCRadixAddKeyIPV6Netblock ::
  "byte list option \<Rightarrow> SCRadixTree \<Rightarrow> nat \<Rightarrow> nat
     \<Rightarrow> error + (byte list option \<times> node_ptr option \<times> SCRadixTree)" where
  "SCRadixAddKeyIPV6Netblock key_stream tree u nm = SCRadixAddKey key_stream 128 tree u nm"

subsection \<open>Lookup\<close>

text \<open>
  The walk down shared by \<^verbatim>\<open>SCRadixFindKey\<close>, \<^verbatim>\<open>SCRadixFindKeyIPNetblock\<close> and
  \<^verbatim>\<open>SCRadixRemoveKey\<close> (\<^verbatim>\<open>while (node->bit < prefix->bitlen)\<close>); the result \<open>None\<close>
  says that the walk met a null child, where the C functions return.
\<close>

fun find_walk_down ::
  "byte list \<Rightarrow> nat \<Rightarrow> SCRadixNode \<Rightarrow> node_ptr \<Rightarrow> error + node_ptr option" where
  "find_walk_down s bl (SCRadixNode b pfx cnt nms l r) p =
     (if b < bl then
        (case stream_bit s b of
           Inl e \<Rightarrow> Inl e
         | Inr True \<Rightarrow>
             (case r of None \<Rightarrow> Inr None | Some rn \<Rightarrow> find_walk_down s bl rn (GoRight # p))
         | Inr False \<Rightarrow>
             (case l of None \<Rightarrow> Inr None | Some ln \<Rightarrow> find_walk_down s bl ln (GoLeft # p)))
      else Inr (Some p))"

text \<open>\<^verbatim>\<open>memcmp(a, b, n) == 0\<close>; reading past the end of a stream is an error.\<close>

definition stream_memcmp :: "byte list \<Rightarrow> byte list \<Rightarrow> nat \<Rightarrow> error + bool" where
  "stream_memcmp a b n =
     (if length a < n \<or> length b < n then Inl OutOfBounds else Inr (take n a = take n b))"

text \<open>
  The comparison of the node's stream with the query and the selection of the user
  data. The C code also accepts \<^verbatim>\<open>prefix->bitlen % 8 == 0\<close> before it compares a
  trailing partial byte; \<^verbatim>\<open>SCRadixCreatePrefix\<close> only makes prefixes with such a
  length, so the comparison of the partial byte is never reached.
\<close>

definition match_node ::
  "SCRadixNode \<Rightarrow> byte list \<Rightarrow> nat \<Rightarrow> nat \<Rightarrow> bool \<Rightarrow> error + (bool \<times> SCRadixPrefix option)" where
  "match_node node s bl sel_bitlen exact_match =
     (case prefix node of
        None \<Rightarrow> Inl NullDeref
      | Some npfx \<Rightarrow>
          (case stream_memcmp (stream npfx) s (bl div 8) of
             Inl e \<Rightarrow> Inl e
           | Inr False \<Rightarrow> Inr (False, Some npfx)
           | Inr True \<Rightarrow>
               SCRadixPrefixContainNetmaskAndSetUserData (Some npfx) sel_bitlen exact_match))"

text \<open>
  The loop over the netmasks of the netmask node in \<^verbatim>\<open>SCRadixFindKeyIPNetblock\<close>.
  The query stream is chopped in place in every round and the variable \<open>node\<close> keeps
  its value from one round to the next. The result is the stream and, when the
  function returns from inside the loop, what it returns.
\<close>

fun netblock_loop ::
  "SCRadixTree \<Rightarrow> nat \<Rightarrow> nat list \<Rightarrow> byte list \<Rightarrow> node_ptr
     \<Rightarrow> error + (byte list \<times> (node_ptr option \<times> SCRadixTree) option)" where
  "netblock_loop t bl [] s p = Inr (s, None)"
| "netblock_loop t bl (m # ms) s p =
     (let s' = chop_from 0 m (take (bl div 8) s) @ drop (bl div 8) s in
      case deref t p of
        None \<Rightarrow> Inl NullDeref
      | Some node \<Rightarrow>
          (case find_walk_down s' bl node p of
             Inl e \<Rightarrow> Inl e
           | Inr None \<Rightarrow> Inr (s', Some (None, t))
           | Inr (Some q) \<Rightarrow>
               (case deref t q of
                  None \<Rightarrow> Inl NullDeref
                | Some n \<Rightarrow>
                    if bit_pos n \<noteq> bl \<or> prefix n = None then Inr (s', Some (None, t))
                    else
                      (case match_node n s' bl bl False of
                         Inl e \<Rightarrow> Inl e
                       | Inr (True, npfx) \<Rightarrow>
                           Inr (s', Some (Some q, store t q (\<lambda>n. Some (set_prefix npfx n))))
                       | Inr (False, npfx) \<Rightarrow> netblock_loop t bl ms s' q))))"

text \<open>
  \<^verbatim>\<open>SCRadixFindKeyIPNetblock\<close>: climb to the first node with a netmask array, try its
  netmasks, and go on from its parent. The recursion follows the pointer towards
  the head.
\<close>

fun SCRadixFindKeyIPNetblock ::
  "SCRadixTree \<Rightarrow> nat \<Rightarrow> byte list \<Rightarrow> node_ptr \<Rightarrow> error + (node_ptr option \<times> SCRadixTree)" where
  "SCRadixFindKeyIPNetblock t bl s [] =
     (case deref t [] of
        None \<Rightarrow> Inl NullDeref
      | Some node \<Rightarrow>
          (case netmasks node of
             None \<Rightarrow> Inr (None, t)
           | Some arr \<Rightarrow>
               if length arr < netmask_cnt node then Inl OutOfBounds
               else
                 (case netblock_loop t bl (take (netmask_cnt node) arr) s [] of
                    Inl e \<Rightarrow> Inl e
                  | Inr (s', Some res) \<Rightarrow> Inr res
                  | Inr (s', None) \<Rightarrow> Inr (None, t))))"
| "SCRadixFindKeyIPNetblock t bl s (d # ps) =
     (case deref t (d # ps) of
        None \<Rightarrow> Inl NullDeref
      | Some node \<Rightarrow>
          (case netmasks node of
             None \<Rightarrow> SCRadixFindKeyIPNetblock t bl s ps
           | Some arr \<Rightarrow>
               if length arr < netmask_cnt node then Inl OutOfBounds
               else
                 (case netblock_loop t bl (take (netmask_cnt node) arr) s (d # ps) of
                    Inl e \<Rightarrow> Inl e
                  | Inr (s', Some res) \<Rightarrow> Inr res
                  | Inr (s', None) \<Rightarrow> SCRadixFindKeyIPNetblock t bl s' ps)))"

text \<open>
  \<^verbatim>\<open>SCRadixFindKey\<close>. The result is the returned node pointer (\<open>None\<close> for no match)
  and the tree, in which the node found has its \<^verbatim>\<open>user_data_result\<close> set. The query
  is copied into a prefix of its own with a null user and netmask 255.
\<close>

definition SCRadixFindKey ::
  "byte list option \<Rightarrow> nat \<Rightarrow> SCRadixTree \<Rightarrow> bool \<Rightarrow> error + (node_ptr option \<times> SCRadixTree)" where
  "SCRadixFindKey key_stream key_bitlen tree exact_match =
     (case tree of
        None \<Rightarrow> Inr (None, tree)
      | Some hd_node \<Rightarrow>
          (case SCRadixCreatePrefix key_stream key_bitlen 0 255 of
             Inl e \<Rightarrow> Inl e
           | Inr None \<Rightarrow> Inr (None, tree)
           | Inr (Some pfx) \<Rightarrow>
               (case find_walk_down (stream pfx) (bitlen pfx) hd_node [] of
                  Inl e \<Rightarrow> Inl e
                | Inr None \<Rightarrow> Inr (None, tree)
                | Inr (Some p) \<Rightarrow>
                    (case deref tree p of
                       None \<Rightarrow> Inl NullDeref
                     | Some node \<Rightarrow>
                         if bit_pos node \<noteq> bitlen pfx \<or> prefix node = None
                         then Inr (None, tree)
                         else
                           (case match_node node (stream pfx) (bitlen pfx) key_bitlen True of
                              Inl e \<Rightarrow> Inl e
                            | Inr (True, npfx) \<Rightarrow>
                                Inr (Some p, store tree p (\<lambda>n. Some (set_prefix npfx n)))
                            | Inr (False, npfx) \<Rightarrow>
                                if exact_match then Inr (None, tree)
                                else SCRadixFindKeyIPNetblock tree (bitlen pfx) (stream pfx) p)))))"

definition SCRadixFindKeyGeneric ::
  "byte list option \<Rightarrow> nat \<Rightarrow> SCRadixTree \<Rightarrow> error + (node_ptr option \<times> SCRadixTree)" where
  "SCRadixFindKeyGeneric key_stream key_bitlen tree = SCRadixFindKey key_stream key_bitlen tree True"

definition SCRadixFindKeyIPV4ExactMatch ::
  "byte list option \<Rightarrow> SCRadixTree \<Rightarrow> error + (node_ptr option \<times> SCRadixTree)" where
  "SCRadixFindKeyIPV4ExactMatch key_stream tree = SCRadixFindKey key_stream 32 tree True"

definition SCRadixFindKeyIPV4BestMatch ::
  "byte list option \<Rightarrow> SCRadixTree \<Rightarrow> error + (node_ptr option \<times> SCRadixTree)" where
  "SCRadixFindKeyIPV4BestMatch key_stream tree = SCRadixFindKey key_stream 32 tree False"

definition SCRadixFindKeyIPV6ExactMatch ::
  "byte list option \<Rightarrow> SCRadixTree \<Rightarrow> error + (node_ptr option \<times> SCRadixTree)" where
  "SCRadixFindKeyIPV6ExactMatch key_stream tree = SCRadixFindKey key_stream 128 tree True"

definition SCRadixFindKeyIPV6BestMatch ::
  "byte list option \<Rightarrow> SCRadixTree \<Rightarrow> error + (node_ptr option \<times> SCRadixTree)" where
  "SCRadixFindKeyIPV6BestMatch key_stream tree = SCRadixFindKey key_stream 128 tree False"

subsection \<open>Removal\<close>

text \<open>
  \<^verbatim>\<open>SCRadixTransferNetmasksBWNodes\<close>: the netmasks in use of \<open>src\<close> are copied
  behind those of \<open>dest\<close> in a block of the size of both; \<^verbatim>\<open>dest->netmask_cnt\<close> is not
  assigned. When \<^verbatim>\<open>SCRealloc\<close> returns the null pointer the C code calls
  \<^verbatim>\<open>exit(EXIT_FAILURE)\<close>.
\<close>

definition SCRadixTransferNetmasksBWNodes :: "SCRadixNode \<Rightarrow> SCRadixNode \<Rightarrow> error + SCRadixNode" where
  "SCRadixTransferNetmasksBWNodes dest src =
     (case netmasks src of
        None \<Rightarrow> Inr dest
      | Some src_arr \<Rightarrow>
          if realloc_null (netmasks dest) (netmask_cnt src + netmask_cnt dest) then Inl ExitFailure
          else if length src_arr < netmask_cnt src then Inl OutOfBounds
          else Inr (SCRadixNode (bit_pos dest) (prefix dest) (netmask_cnt dest)
                      (Some (take (netmask_cnt dest)
                               (realloc (netmasks dest) (netmask_cnt src + netmask_cnt dest))
                             @ take (netmask_cnt src) src_arr))
                      (left dest) (right dest)))"

text \<open>The first index in the array that holds the netmask
  (\<^verbatim>\<open>if (node->netmasks[i] == netmask) break;\<close>), or the length.\<close>

fun netmask_index :: "nat \<Rightarrow> nat list \<Rightarrow> nat" where
  "netmask_index nm [] = 0"
| "netmask_index nm (x # xs) = (if x = nm then 0 else Suc (netmask_index nm xs))"

text \<open>
  \<^verbatim>\<open>SCRadixRemoveNetblockEntry\<close>. The C function walks up to \<^verbatim>\<open>local_node\<close> and then
  searches and shrinks the array of \<open>node\<close> itself; the walk has no effect and is
  left out. The result is the node.
\<close>

definition SCRadixRemoveNetblockEntry :: "SCRadixNode \<Rightarrow> nat \<Rightarrow> error + SCRadixNode" where
  "SCRadixRemoveNetblockEntry node nm =
     (case SCRadixRemoveNetmaskUserDataFromPrefix (prefix node) nm of
        Inl e \<Rightarrow> Inl e
      | Inr pfx \<Rightarrow>
          (let node1 = set_prefix (Some pfx) node; cnt = netmask_cnt node in
           if nm = 32 \<or> nm = 128 then Inr node1
           else if cnt = 0 then Inr node1
           else
             (case netmasks node of
                None \<Rightarrow> Inl NullDeref
              | Some arr \<Rightarrow>
                  if length arr < cnt then Inl OutOfBounds
                  else
                    (let i = netmask_index nm (take cnt arr) in
                     if i = cnt then Inr node1
                     else if cnt - 1 = 0
                     then Inr (SCRadixNode (bit_pos node) (Some pfx) 0 None (left node) (right node))
                     else Inr (SCRadixNode (bit_pos node) (Some pfx) (cnt - 1)
                                 (Some (take i arr @ take (cnt - 1 - i) (drop (i + 1) arr)))
                                 (left node) (right node))))))"

definition other :: "dir \<Rightarrow> dir" where
  "other d = (case d of GoLeft \<Rightarrow> GoRight | GoRight \<Rightarrow> GoLeft)"

text \<open>
  \<^verbatim>\<open>SCRadixRemoveKey\<close>. When the node is not the head, the other child of its parent
  takes the place of the parent (below the grandparent, or as the new head: both are
  the subtree at the parent's position), receives the parent's netmasks, and the
  parent and the node are released. The C code reads \<^verbatim>\<open>->parent\<close> of that other child
  without a null check.
\<close>

definition SCRadixRemoveKey ::
  "byte list option \<Rightarrow> nat \<Rightarrow> SCRadixTree \<Rightarrow> nat \<Rightarrow> error + SCRadixTree" where
  "SCRadixRemoveKey key_stream key_bitlen tree nm =
     (case tree of
        None \<Rightarrow> Inr tree
      | Some hd_node \<Rightarrow>
          (case SCRadixCreatePrefix key_stream key_bitlen 0 255 of
             Inl e \<Rightarrow> Inl e
           | Inr None \<Rightarrow> Inr tree
           | Inr (Some pfx) \<Rightarrow>
               (case find_walk_down (stream pfx) (bitlen pfx) hd_node [] of
                  Inl e \<Rightarrow> Inl e
                | Inr None \<Rightarrow> Inr tree
                | Inr (Some p) \<Rightarrow>
                    (case deref tree p of
                       None \<Rightarrow> Inl NullDeref
                     | Some node \<Rightarrow>
                         (case prefix node of
                            None \<Rightarrow> Inr tree
                          | Some npfx \<Rightarrow>
                              if bit_pos node \<noteq> bitlen pfx then Inr tree
                              else
                                (case stream_memcmp (stream npfx) (stream pfx) (bitlen pfx div 8) of
                                   Inl e \<Rightarrow> Inl e
                                 | Inr False \<Rightarrow> Inr tree
                                 | Inr True \<Rightarrow>
                                     if \<not> SCRadixPrefixContainNetmask (Some npfx) nm then Inr tree
                                     else if SCRadixPrefixNetmaskCount (Some npfx) > 1 then
                                       (case SCRadixRemoveNetblockEntry node nm of
                                          Inl e \<Rightarrow> Inl e
                                        | Inr node' \<Rightarrow> Inr (store tree p (\<lambda>_. Some node')))
                                     else
                                       (case p of
                                          [] \<Rightarrow> Inr None
                                        | d # pp \<Rightarrow>
                                            (case deref tree pp of
                                               None \<Rightarrow> Inl NullDeref
                                             | Some parent \<Rightarrow>
                                                 (case child (other d) parent of
                                                    None \<Rightarrow> Inl NullDeref
                                                  | Some temp_dest \<Rightarrow>
                                                      (case SCRadixTransferNetmasksBWNodes temp_dest parent of
                                                         Inl e \<Rightarrow> Inl e
                                                       | Inr dest' \<Rightarrow>
                                                           Inr (store tree pp (\<lambda>_. Some dest'))))))))))))"

definition SCRadixRemoveKeyGeneric :: "byte list option \<Rightarrow> nat \<Rightarrow> SCRadixTree \<Rightarrow> error + SCRadixTree" where
  "SCRadixRemoveKeyGeneric key_stream key_bitlen tree = SCRadixRemoveKey key_stream key_bitlen tree 255"

definition SCRadixRemoveKeyIPV4Netblock :: "byte list option \<Rightarrow> SCRadixTree \<Rightarrow> nat \<Rightarrow> error + SCRadixTree" where
  "SCRadixRemoveKeyIPV4Netblock key_stream tree nm = SCRadixRemoveKey key_stream 32 tree nm"

definition SCRadixRemoveKeyIPV4 :: "byte list option \<Rightarrow> SCRadixTree \<Rightarrow> error + SCRadixTree" where
  "SCRadixRemoveKeyIPV4 key_stream tree = SCRadixRemoveKey key_stream 32 tree 32"

definition SCRadixRemoveKeyIPV6Netblock :: "byte list option \<Rightarrow> SCRadixTree \<Rightarrow> nat \<Rightarrow> error + SCRadixTree" where
  "SCRadixRemoveKeyIPV6Netblock key_stream tree nm = SCRadixRemoveKey key_stream 128 tree nm"

definition SCRadixRemoveKeyIPV6 :: "byte list option \<Rightarrow> SCRadixTree \<Rightarrow> error + SCRadixTree" where
  "SCRadixRemoveKeyIPV6 key_stream tree = SCRadixRemoveKey key_stream 128 tree 128"

subsection \<open>Observations and predicates on trees\<close>

text \<open>What a lookup reports: the stream and the user data list of the node it returns
  and the user it selected, or \<open>None\<close> for no match.\<close>

definition found_entry ::
  "error + (node_ptr option \<times> SCRadixTree) \<Rightarrow> error + (byte list \<times> SCRadixUserData list \<times> nat) option" where
  "found_entry r =
     (case r of
        Inl e \<Rightarrow> Inl e
      | Inr (None, t) \<Rightarrow> Inr None
      | Inr (Some p, t) \<Rightarrow>
          (case deref t p of
             None \<Rightarrow> Inl NullDeref
           | Some n \<Rightarrow>
               (case prefix n of
                  None \<Rightarrow> Inl NullDeref
                | Some pfx \<Rightarrow> Inr (Some (stream pfx, user_data pfx, user_data_result pfx)))))"

text \<open>The propagation list of a node: the entries in use of its netmask array.\<close>

definition netmasks_in_use :: "SCRadixNode \<Rightarrow> nat list" where
  "netmasks_in_use n = (case netmasks n of None \<Rightarrow> [] | Some arr \<Rightarrow> take (netmask_cnt n) arr)"

text \<open>A property of every node of a subtree, and of every node of a tree.\<close>

fun all_nodes :: "(SCRadixNode \<Rightarrow> bool) \<Rightarrow> SCRadixNode \<Rightarrow> bool" where
  "all_nodes P (SCRadixNode b pfx cnt nms l r) =
     (P (SCRadixNode b pfx cnt nms l r)
      \<and> (case l of None \<Rightarrow> True | Some ln \<Rightarrow> all_nodes P ln)
      \<and> (case r of None \<Rightarrow> True | Some rn \<Rightarrow> all_nodes P rn))"

definition all_tree :: "(SCRadixNode \<Rightarrow> bool) \<Rightarrow> SCRadixTree \<Rightarrow> bool" where
  "all_tree P t = (case t of None \<Rightarrow> True | Some n \<Rightarrow> all_nodes P n)"

text \<open>
  The netmask array of a node is in order: a null array goes with a count of zero, the
  count does not exceed the block, and the entries in use are in descending order.
\<close>

definition netmasks_ok :: "SCRadixNode \<Rightarrow> bool" where
  "netmasks_ok n =
     (case netmasks n of
        None \<Rightarrow> netmask_cnt n = 0
      | Some arr \<Rightarrow> netmask_cnt n \<le> length arr \<and> sorted_wrt (\<ge>) (take (netmask_cnt n) arr))"

text \<open>
  The prefix of a node is in order: its user data list is not empty and its stream
  reaches the bit position of the node; with \<open>g\<close> set, every entry moreover carries
  the netmask 255 of a generic key.
\<close>

definition prefix_ok :: "bool \<Rightarrow> SCRadixNode \<Rightarrow> bool" where
  "prefix_ok g n =
     (case prefix n of
        None \<Rightarrow> True
      | Some p \<Rightarrow>
          user_data p \<noteq> [] \<and> bit_pos n \<le> 8 * length (stream p)
          \<and> (g \<longrightarrow> (\<forall>ud \<in> set (user_data p). netmask ud = 255)))"


text \<open>The trees that insertions, removals and lookups build from the empty tree (a lookup
  writes \<^verbatim>\<open>user_data_result\<close>).\<close>

inductive reachable :: "SCRadixTree \<Rightarrow> bool" where
  reachable_empty: "reachable None"
| reachable_add:
    "reachable t \<Longrightarrow> SCRadixAddKey key_stream key_bitlen t u nm = Inr (ks, res, t') \<Longrightarrow> reachable t'"
| reachable_remove:
    "reachable t \<Longrightarrow> SCRadixRemoveKey key_stream key_bitlen t nm = Inr t' \<Longrightarrow> reachable t'"
| reachable_find:
    "reachable t \<Longrightarrow> SCRadixFindKey key_stream key_bitlen t exact_match = Inr (res, t')
       \<Longrightarrow> reachable t'"

text \<open>The trees that insertions of generic keys build from the empty tree.\<close>

inductive generic_inserted :: "SCRadixTree \<Rightarrow> bool" where
  generic_empty: "generic_inserted None"
| generic_add:
    "generic_inserted t \<Longrightarrow> SCRadixAddKeyGeneric key_stream key_bitlen t u = Inr (ks, res, t')
       \<Longrightarrow> generic_inserted t'"

text \<open>
  A node of a tree of host entries: it has no netmask array, its bit position is at most
  \<open>kb\<close>, and the prefix it holds, if any, has an entry with the netmask \<open>nm\<close>.
\<close>

definition host_node :: "nat \<Rightarrow> nat \<Rightarrow> SCRadixNode \<Rightarrow> bool" where
  "host_node kb nm n =
     (netmasks n = None \<and> bit_pos n \<le> kb
      \<and> (case prefix n of None \<Rightarrow> True | Some p \<Rightarrow> contains_netmask (user_data p) nm))"

text \<open>
  The directions \<open>ds\<close> are those that the descent loops of the insertion, the lookup and
  the removal take from the node \<open>n\<close> for the stream \<open>s\<close> of \<open>bl\<close> bits: each node on
  the way has a bit position below \<open>bl\<close>, and the bit of the stream at that position
  selects the direction.
\<close>

fun walk_path :: "byte list \<Rightarrow> nat \<Rightarrow> SCRadixNode \<Rightarrow> dir list \<Rightarrow> bool" where
  "walk_path s bl n [] = True"
| "walk_path s bl n (d # ds) =
     (bit_pos n < bl \<and> stream_bit s (bit_pos n) = Inr (d = GoRight)
      \<and> (case child d n of None \<Rightarrow> False | Some c \<Rightarrow> walk_path s bl c ds))"



section \<open>Properties\<close>

subsection \<open>Evaluation\<close>

lemmas add_key_defs =
  SCRadixAddKeyIPV4Netblock_def SCRadixAddKeyIPV4_def SCRadixAddKeyGeneric_def SCRadixAddKey_def
  SCRadixChopIPAddressAgainstNetmask_def chop_mask_def SCRadixCreatePrefix_def
  SCRadixAllocSCRadixUserData_def add_first_node_def realloc_def add_locate_def deref_def
  store_def stream_bit_def SC_RADIX_BITTEST_def first_differ.simps differ_offset_def
  add_existing_def add_splice_def split_netmasks_def register_netmask_def add_netmask_def
  netmask_shift.simps set_prefix_def SCRadixPrefixContainNetmask_def
  SCRadixAddNetmaskUserDataToPrefix_def Let_def

lemmas find_key_defs =
  SCRadixFindKeyIPV4BestMatch_def SCRadixFindKeyIPV4ExactMatch_def SCRadixFindKeyGeneric_def
  SCRadixFindKey_def SCRadixCreatePrefix_def SCRadixAllocSCRadixUserData_def deref_def store_def
  stream_bit_def SC_RADIX_BITTEST_def match_node_def stream_memcmp_def set_prefix_def
  SCRadixPrefixContainNetmaskAndSetUserData_def chop_mask_def found_entry_def Let_def

lemmas remove_key_defs =
  SCRadixRemoveKeyIPV4Netblock_def SCRadixRemoveKeyIPV4_def SCRadixRemoveKeyGeneric_def
  SCRadixRemoveKey_def SCRadixCreatePrefix_def SCRadixAllocSCRadixUserData_def deref_def store_def
  stream_bit_def SC_RADIX_BITTEST_def stream_memcmp_def set_prefix_def
  SCRadixPrefixContainNetmask_def SCRadixPrefixNetmaskCount_def SCRadixRemoveNetblockEntry_def
  SCRadixRemoveNetmaskUserDataFromPrefix_def SCRadixTransferNetmasksBWNodes_def other_def
  realloc_def realloc_null_def Let_def

subsection \<open>Properties of all nodes of a tree\<close>

lemma all_nodes_self: "all_nodes P n \<Longrightarrow> P n"
  by (cases n) simp

lemma all_nodes_child: "all_nodes P n \<Longrightarrow> child d n = Some c \<Longrightarrow> all_nodes P c"
  by (cases n; cases d) auto

lemma all_tree_node_at: "all_tree P t \<Longrightarrow> node_at t ds = Some n \<Longrightarrow> all_nodes P n"
proof (induction ds arbitrary: t)
  case Nil
  then show ?case by (simp add: all_tree_def)
next
  case (Cons d ds)
  from Cons.prems obtain m where m: "t = Some m" "node_at (child d m) ds = Some n"
    by (cases t) auto
  have "all_tree P (child d m)"
    using Cons.prems(1) m(1) all_nodes_child [of P m d]
    by (cases "child d m") (auto simp: all_tree_def)
  then show ?case using Cons.IH m(2) by blast
qed

lemma all_tree_deref: "all_tree P t \<Longrightarrow> deref t p = Some n \<Longrightarrow> all_nodes P n"
  unfolding deref_def by (rule all_tree_node_at)

lemma local_fields:
  assumes loc: "\<And>d c n. P (set_child d c n) = P n"
    and "P (SCRadixNode b pfx cnt nms l r)"
  shows "P (SCRadixNode b pfx cnt nms l' r')"
proof -
  have "P (SCRadixNode b pfx cnt nms l' r) = P (SCRadixNode b pfx cnt nms l r)"
    using loc [of GoLeft l' "SCRadixNode b pfx cnt nms l r"] by simp
  moreover have "P (SCRadixNode b pfx cnt nms l' r') = P (SCRadixNode b pfx cnt nms l' r)"
    using loc [of GoRight r' "SCRadixNode b pfx cnt nms l' r"] by simp
  ultimately show ?thesis using assms(2) by simp
qed

lemma all_nodes_set_child:
  assumes loc: "\<And>d c n. P (set_child d c n) = P n"
    and "all_nodes P n" and "all_tree P c"
  shows "all_nodes P (set_child d c n)"
proof (cases n)
  case (SCRadixNode b pfx cnt nms l r)
  have "P (set_child d c n)" using assms(2) loc all_nodes_self by blast
  then show ?thesis
    using assms(2,3) SCRadixNode by (cases d) (auto simp: all_tree_def split: option.splits)
qed

lemma all_nodes_fields:
  assumes "all_nodes P n" and "P (SCRadixNode b pfx cnt nms (left n) (right n))"
  shows "all_nodes P (SCRadixNode b pfx cnt nms (left n) (right n))"
  using assms by (cases n) auto

lemma all_tree_update_at:
  assumes loc: "\<And>d c n. P (set_child d c n) = P n"
  shows "all_tree P t \<Longrightarrow> (\<And>n. node_at t ds = Some n \<Longrightarrow> all_tree P (f n))
           \<Longrightarrow> all_tree P (update_at ds f t)"
proof (induction ds arbitrary: t)
  case Nil
  then show ?case by (cases t) (auto simp: all_tree_def)
next
  case (Cons d ds)
  show ?case
  proof (cases t)
    case None
    then show ?thesis by (simp add: all_tree_def)
  next
    case (Some m)
    have sub: "all_tree P (child d m)"
      using Cons.prems(1) Some all_nodes_child [of P m d]
      by (cases "child d m") (auto simp: all_tree_def)
    have step: "\<And>n. node_at (child d m) ds = Some n \<Longrightarrow> all_tree P (f n)"
      using Cons.prems(2) Some by simp
    have "all_tree P (update_at ds f (child d m))"
      using sub step by (rule Cons.IH)
    moreover have "all_nodes P m"
      using Cons.prems(1) Some by (simp add: all_tree_def)
    ultimately have "all_nodes P (set_child d (update_at ds f (child d m)) m)"
      using loc by (intro all_nodes_set_child)
    then show ?thesis using Some by (simp add: all_tree_def)
  qed
qed

lemma all_tree_store:
  assumes loc: "\<And>d c n. P (set_child d c n) = P n"
    and "all_tree P t" and "\<And>n. deref t p = Some n \<Longrightarrow> all_tree P (f n)"
  shows "all_tree P (store t p f)"
proof -
  have "\<And>n. node_at t (rev p) = Some n \<Longrightarrow> all_tree P (f n)"
    using assms(3) by (simp add: deref_def)
  with assms(2) have "all_tree P (update_at (rev p) f t)"
    using loc by (intro all_tree_update_at)
  then show ?thesis by (simp add: store_def)
qed

lemma all_tree_None: "all_tree P None"
  by (simp add: all_tree_def)

lemma node_at_append:
  "node_at t (ds @ [d]) = (case node_at t ds of None \<Rightarrow> None | Some n \<Rightarrow> child d n)"
  by (induction ds arbitrary: t) (auto split: option.splits)

lemma deref_Cons: "deref t p = Some n \<Longrightarrow> deref t (d # p) = child d n"
  by (simp add: deref_def node_at_append)

lemma find_walk_down_ok:
  "bl \<le> 8 * length s \<Longrightarrow> deref t p = Some n \<Longrightarrow>
   \<exists>r. find_walk_down s bl n p = Inr r \<and> (\<forall>q. r = Some q \<longrightarrow> (\<exists>m. deref t q = Some m))"
proof (induction s bl n p rule: find_walk_down.induct)
  case (1 s bl b pfx cnt nms l r p)
  let ?n = "SCRadixNode b pfx cnt nms l r"
  show ?case
  proof (cases "b < bl")
    case False
    then show ?thesis using "1.prems" by simp
  next
    case True
    then have "b div 8 < length s" using "1.prems"(1) by simp
    then obtain x where sb: "stream_bit s b = Inr x" by (simp add: stream_bit_def)
    show ?thesis
    proof (cases x)
      case xt: True
      show ?thesis
      proof (cases r)
        case None
        then show ?thesis using True sb xt by simp
      next
        case (Some rn)
        have "deref t (GoRight # p) = Some rn"
          using deref_Cons [OF "1.prems"(2), of GoRight] Some by simp
        moreover have "x = True" using xt by simp
        ultimately have "\<exists>r. find_walk_down s bl rn (GoRight # p) = Inr r \<and>
                           (\<forall>q. r = Some q \<longrightarrow> (\<exists>m. deref t q = Some m))"
          using "1.IH"(1) True sb Some "1.prems"(1) by blast
        then
        show ?thesis using True sb xt Some by simp
      qed
    next
      case xf: False
      show ?thesis
      proof (cases l)
        case None
        then show ?thesis using True sb xf by simp
      next
        case (Some ln)
        have "deref t (GoLeft # p) = Some ln"
          using deref_Cons [OF "1.prems"(2), of GoLeft] Some by simp
        moreover have "x = False" using xf by simp
        ultimately have "\<exists>r. find_walk_down s bl ln (GoLeft # p) = Inr r \<and>
                           (\<forall>q. r = Some q \<longrightarrow> (\<exists>m. deref t q = Some m))"
          using "1.IH"(2) True sb Some "1.prems"(1) by blast
        then
        show ?thesis using True sb xf Some by simp
      qed
    qed
  qed
qed


subsection \<open>The netmask array\<close>



lemma first_below_takeWhile:
  "first_below d xs = length (takeWhile (\<lambda>m. \<not> m < d + 1) xs)"
  by (induction xs) auto

lemma descending_takeWhile_filter:
  "sorted_wrt (\<ge>) xs \<Longrightarrow> takeWhile (\<lambda>m. \<not> m < (b::nat)) xs = filter (\<lambda>m. \<not> m < b) xs"
proof (induction xs)
  case Nil
  show ?case by simp
next
  case (Cons x xs)
  show ?case
  proof (cases "x < b")
    case True
    then have "\<forall>y\<in>set xs. y < b" using Cons.prems by auto
    then have "filter (\<lambda>m. \<not> m < b) xs = []" by (simp add: filter_empty_conv)
    then show ?thesis using True by simp
  next
    case False
    then show ?thesis using Cons by simp
  qed
qed

lemma descending_dropWhile_filter:
  "sorted_wrt (\<ge>) xs \<Longrightarrow> dropWhile (\<lambda>m. \<not> m < (b::nat)) xs = filter (\<lambda>m. m < b) xs"
proof (induction xs)
  case Nil
  show ?case by simp
next
  case (Cons x xs)
  show ?case
  proof (cases "x < b")
    case True
    then have "\<forall>y\<in>set xs. y < b" using Cons.prems by auto
    then have "filter (\<lambda>m. m < b) xs = xs" by (simp add: filter_id_conv)
    then show ?thesis using True by simp
  next
    case False
    then show ?thesis using Cons by simp
  qed
qed



subsection \<open>What an insertion preserves\<close>

lemma add_netmask_all_nodes:
  "all_nodes P n \<Longrightarrow> P (add_netmask nm n) \<Longrightarrow> all_nodes P (add_netmask nm n)"
  by (cases n) (auto simp: add_netmask_def Let_def split: if_splits)

lemma set_prefix_all_nodes:
  "all_nodes P n \<Longrightarrow> P (set_prefix x n) \<Longrightarrow> all_nodes P (set_prefix x n)"
  unfolding set_prefix_def by (rule all_nodes_fields)

lemma store_add_netmask_preserves:
  assumes loc: "\<And>d c n. P (set_child d c n) = P n"
    and c4: "\<And>n. P n \<Longrightarrow> P (add_netmask nm n)"
    and inv: "all_tree P t"
  shows "all_tree P (store t q (\<lambda>n. Some (add_netmask nm n)))"
proof (rule all_tree_store [OF loc inv])
  fix n assume "deref t q = Some n"
  then have an: "all_nodes P n" using inv by (rule all_tree_deref [rotated])
  then have "P (add_netmask nm n)" using c4 all_nodes_self by blast
  with an show "all_tree P (Some (add_netmask nm n))"
    by (simp add: all_tree_def add_netmask_all_nodes)
qed

lemma register_netmask_preserves:
  assumes loc: "\<And>d c n. P (set_child d c n) = P n"
    and c4: "\<And>n. P n \<Longrightarrow> P (add_netmask nm n)"
    and inv: "all_tree P t"
  shows "all_tree P (register_netmask t np nm)"
  unfolding register_netmask_def
  using store_add_netmask_preserves [OF loc c4 inv] inv by simp

lemma store_set_prefix_preserves:
  assumes loc: "\<And>d c n. P (set_child d c n) = P n"
    and inv: "all_tree P t"
    and here: "deref t p = Some node"
    and ok: "P (set_prefix x node)"
  shows "all_tree P (store t p (\<lambda>n. Some (set_prefix x n)))"
proof (rule all_tree_store [OF loc inv])
  fix n assume "deref t p = Some n"
  then have n: "n = node" using here by simp
  have "all_nodes P node" using inv here by (rule all_tree_deref)
  then show "all_tree P (Some (set_prefix x n))"
    using ok n by (simp add: all_tree_def set_prefix_all_nodes)
qed

lemma add_existing_preserves:
  assumes loc: "\<And>d c n. P (set_child d c n) = P n"
    and c3: "\<And>n npfx. P n \<Longrightarrow> prefix n = Some npfx \<Longrightarrow>
               P (set_prefix (Some (npfx\<lparr> user_data :=
                    SCRadixAppendToSCRadixUserDataList (SCRadixUserData nm u) (user_data npfx) \<rparr>)) n)"
    and c4: "\<And>n. P n \<Longrightarrow> P (add_netmask nm n)"
    and c5: "\<And>n np. P n \<Longrightarrow> prefix n = None \<Longrightarrow> bit_pos n = bitlen pfx mod 256 \<Longrightarrow>
               SCRadixCreatePrefix (Some (stream pfx)) (bitlen pfx) u 255 = Inr np \<Longrightarrow>
               P (set_prefix np n)"
    and inv: "all_tree P t"
    and here: "deref t p = Some node"
    and bit: "bit_pos node = bitlen pfx mod 256"
    and run: "add_existing t p node pfx u nm = Inr (res, t')"
  shows "all_tree P t'"
proof -
  have pn: "P node" using inv here all_tree_deref all_nodes_self by blast
  show ?thesis
  proof (cases "prefix node")
    case None
    from run None obtain np where np: "SCRadixCreatePrefix (Some (stream pfx)) (bitlen pfx) u 255 = Inr np"
      and t': "t' = store t p (\<lambda>n. Some (set_prefix np n))"
      by (auto simp: add_existing_def split: sum.splits)
    have "P (set_prefix np node)" using c5 pn None bit np by blast
    then show ?thesis unfolding t' using loc inv here by (intro store_set_prefix_preserves)
  next
    case (Some npfx)
    show ?thesis
    proof (cases "SCRadixPrefixContainNetmask (Some npfx) nm")
      case True
      then have "t' = t" using run Some by (simp add: add_existing_def)
      then show ?thesis using inv by simp
    next
      case False
      let ?npfx' = "npfx\<lparr> user_data :=
                    SCRadixAppendToSCRadixUserDataList (SCRadixUserData nm u) (user_data npfx) \<rparr>"
      let ?t1 = "store t p (\<lambda>n. Some (set_prefix (Some ?npfx') n))"
      have a: "SCRadixAddNetmaskUserDataToPrefix (Some npfx) nm u = Inr ?npfx'"
        using run Some False
        by (auto simp: add_existing_def SCRadixAddNetmaskUserDataToPrefix_def
            SCRadixAllocSCRadixUserData_def split: sum.splits if_splits)
      have "P (set_prefix (Some ?npfx') node)" using c3 pn Some by blast
      then have inv1: "all_tree P ?t1" using loc inv here by (intro store_set_prefix_preserves)
      have "t' = ?t1 \<or> t' = store ?t1 (netmask_walk_up ?t1 nm p) (\<lambda>n. Some (add_netmask nm n))"
        using run Some False a
        by (auto simp: add_existing_def Let_def split: if_splits option.splits)
      then show ?thesis
        using inv1 store_add_netmask_preserves [OF loc c4 inv1] by auto
    qed
  qed
qed

lemma add_splice_preserves:
  assumes loc: "\<And>d c n. P (set_child d c n) = P n"
    and leaf: "P (SCRadixNode (bitlen pfx) (Some pfx) 0 None None None)"
    and c6: "\<And>n d n' ic ins. P n \<Longrightarrow> split_netmasks d n = Inr (n', ic, ins) \<Longrightarrow>
               P n' \<and> P (SCRadixNode d None ic ins None None)"
    and inv: "all_tree P t"
    and here: "deref t p = Some node"
    and run: "add_splice t p node bottom pfx bl differ_bit = Inr (t1, np)"
  shows "all_tree P t1"
proof -
  have an: "all_nodes P node" using inv here by (rule all_tree_deref)
  have leaf': "\<And>l r. P (SCRadixNode (bitlen pfx) (Some pfx) 0 None l r)"
    using loc leaf by (rule local_fields)
  show ?thesis
  proof (cases "differ_bit = bl")
    case True
    from run True obtain b where
      t1: "t1 = store t p (\<lambda>_. Some (SCRadixNode (bitlen pfx) (Some pfx) 0 None
                                   (if b then None else Some node)
                                   (if b then Some node else None)))"
      by (auto simp: add_splice_def split: option.splits sum.splits)
    show ?thesis unfolding t1
      by (rule all_tree_store [OF loc inv]) (use an leaf' in \<open>simp add: all_tree_def\<close>)
  next
    case False
    from run False obtain node' ic ins b where
      sp: "split_netmasks differ_bit node = Inr (node', ic, ins)" and
      t1: "t1 = store t p (\<lambda>_. Some (SCRadixNode differ_bit None ic ins
                                      (if b then Some node' else Some (SCRadixNode (bitlen pfx) (Some pfx) 0 None None None))
                                      (if b then Some (SCRadixNode (bitlen pfx) (Some pfx) 0 None None None) else Some node')))"
      by (auto simp: add_splice_def Let_def split: option.splits sum.splits prod.splits)
    have pn: "P node" using an by (rule all_nodes_self)
    from c6 [OF pn sp] have p1: "P node'" and p2: "P (SCRadixNode differ_bit None ic ins None None)"
      by simp_all
    have p2': "\<And>l r. P (SCRadixNode differ_bit None ic ins l r)"
      using loc p2 by (rule local_fields)
    have an': "all_nodes P node'"
    proof (cases "netmasks node")
      case None
      then have "node' = node" using sp by (simp add: split_netmasks_def)
      then show ?thesis using an by simp
    next
      case (Some arr)
      then obtain i x where n': "node' = SCRadixNode (bit_pos node) (prefix node) i x (left node) (right node)"
        using sp by (auto simp: split_netmasks_def Let_def split: if_splits)
      show ?thesis unfolding n'
        using an p1 [unfolded n'] by (rule all_nodes_fields)
    qed
    show ?thesis unfolding t1
      by (rule all_tree_store [OF loc inv]) (use an' leaf' p2' in \<open>simp add: all_tree_def\<close>)
  qed
qed

lemma add_first_node_eq:
  "add_first_node pfx nm =
     (if nm = 255 \<or> nm = 32 \<or> nm = 128 then SCRadixNode (bitlen pfx) (Some pfx) 0 None None None
      else add_netmask nm (SCRadixNode (bitlen pfx) (Some pfx) 0 None None None))"
  by (simp add: add_first_node_def add_netmask_def Let_def)

lemma add_key_preserves:
  assumes loc: "\<And>d c n. P (set_child d c n) = P n"
    and leaf: "\<And>s pfx. SCRadixCreatePrefix s key_bitlen u nm = Inr (Some pfx) \<Longrightarrow>
                P (SCRadixNode (bitlen pfx) (Some pfx) 0 None None None)"
    and c3: "\<And>n npfx. P n \<Longrightarrow> prefix n = Some npfx \<Longrightarrow>
               P (set_prefix (Some (npfx\<lparr> user_data :=
                    SCRadixAppendToSCRadixUserDataList (SCRadixUserData nm u) (user_data npfx) \<rparr>)) n)"
    and c4: "\<And>n. P n \<Longrightarrow> P (add_netmask nm n)"
    and c5: "\<And>s pfx n np. SCRadixCreatePrefix s key_bitlen u nm = Inr (Some pfx) \<Longrightarrow>
               P n \<Longrightarrow> prefix n = None \<Longrightarrow> bit_pos n = bitlen pfx mod 256 \<Longrightarrow>
               SCRadixCreatePrefix (Some (stream pfx)) (bitlen pfx) u 255 = Inr np \<Longrightarrow>
               P (set_prefix np n)"
    and c6: "\<And>n d n' ic ins. P n \<Longrightarrow> split_netmasks d n = Inr (n', ic, ins) \<Longrightarrow>
               P n' \<and> P (SCRadixNode d None ic ins None None)"
    and inv: "all_tree P t"
    and run: "SCRadixAddKey key_stream key_bitlen t u nm = Inr (ks, res, t')"
  shows "all_tree P t'"
proof -
  from run obtain ks1 where chop: "SCRadixChopIPAddressAgainstNetmask key_stream nm key_bitlen = Inr ks1"
    by (auto simp: SCRadixAddKey_def split: sum.splits)
  from run chop obtain opfx where cp: "SCRadixCreatePrefix ks1 key_bitlen u nm = Inr opfx"
    by (auto simp: SCRadixAddKey_def split: sum.splits)
  show ?thesis
  proof (cases opfx)
    case None
    then have "t' = t" using run chop cp by (simp add: SCRadixAddKey_def)
    then show ?thesis using inv by simp
  next
    case (Some pfx)
    note cp' = cp [unfolded Some]
    have lf: "P (SCRadixNode (bitlen pfx) (Some pfx) 0 None None None)"
      using leaf cp' by blast
    show ?thesis
    proof (cases t)
      case None
      then have t': "t' = Some (add_first_node pfx nm)"
        using run chop cp' by (simp add: SCRadixAddKey_def)
      have "P (add_first_node pfx nm)"
        using lf c4 [OF lf] by (simp add: add_first_node_eq)
      then show ?thesis unfolding t' all_tree_def
        by (auto simp: add_first_node_def split: if_splits)
    next
      case (Some hd_node)
      let ?bl = "bitlen pfx mod 256"
      from run chop cp' Some obtain bottom differ_bit p node where
        loc': "add_locate t hd_node (stream pfx) ?bl = Inr (bottom, differ_bit, p)" and
        here: "deref t p = Some node"
        by (auto simp: SCRadixAddKey_def Let_def split: sum.splits option.splits prod.splits)
      show ?thesis
      proof (cases "differ_bit = ?bl \<and> bit_pos node = ?bl")
        case True
        from run chop cp' Some loc' here True obtain r where
          ex: "add_existing t p node pfx u nm = Inr (r, t')"
          by (auto simp: SCRadixAddKey_def Let_def split: sum.splits)
        have c5': "\<And>n np. P n \<Longrightarrow> prefix n = None \<Longrightarrow> bit_pos n = bitlen pfx mod 256 \<Longrightarrow>
               SCRadixCreatePrefix (Some (stream pfx)) (bitlen pfx) u 255 = Inr np \<Longrightarrow>
               P (set_prefix np n)"
          using c5 cp' by blast
        from True have bit: "bit_pos node = bitlen pfx mod 256" by simp
        show ?thesis
          using loc c3 c4 c5' inv here bit ex by (rule add_existing_preserves)
      next
        case False
        from run chop cp' Some loc' here False obtain t1 np where
          sp: "add_splice t p node bottom pfx ?bl differ_bit = Inr (t1, np)" and
          t': "t' = register_netmask t1 np nm"
          by (auto simp: SCRadixAddKey_def Let_def split: sum.splits)
        have "all_tree P t1"
          using loc lf c6 inv here sp by (rule add_splice_preserves)
        then show ?thesis unfolding t'
          using loc c4 by (intro register_netmask_preserves)
      qed
    qed
  qed
qed





lemma first_below_le: "first_below d xs \<le> length xs"
  by (induction xs) auto






lemma prefix_ok_local: "prefix_ok g (set_child d c n) = prefix_ok g n"
  by (cases n; cases d) (simp_all add: prefix_ok_def split: option.splits)

lemma prefix_ok_add_netmask: "prefix_ok g (add_netmask nm n) = prefix_ok g n"
  by (simp add: prefix_ok_def add_netmask_def Let_def split: option.splits)

lemma create_prefix_facts:
  assumes "SCRadixCreatePrefix s key_bitlen u nm = Inr (Some pfx)"
  shows "bitlen pfx = key_bitlen" and "key_bitlen mod 8 = 0" and "0 < key_bitlen"
    and "length (stream pfx) = key_bitlen div 8" and "user_data pfx = [SCRadixUserData nm u]"
  using assms
  by (auto simp: SCRadixCreatePrefix_def SCRadixAllocSCRadixUserData_def
      split: if_splits option.splits)

lemma append_user_data_set:
  "set (SCRadixAppendToSCRadixUserDataList new xs) = insert new (set xs)"
  by (induction xs) auto

lemma append_user_data_not_empty: "SCRadixAppendToSCRadixUserDataList new xs \<noteq> []"
  by (cases xs) auto

lemma add_key_prefix_ok:
  assumes g: "g \<longrightarrow> nm = 255"
    and inv: "all_tree (prefix_ok g) t"
    and run: "SCRadixAddKey key_stream key_bitlen t u nm = Inr (ks, res, t')"
  shows "all_tree (prefix_ok g) t'"
proof (rule add_key_preserves [where P = "prefix_ok g", OF _ _ _ _ _ _ inv run])
  show "\<And>d c n. prefix_ok g (set_child d c n) = prefix_ok g n" by (rule prefix_ok_local)
  show "\<And>s pfx. SCRadixCreatePrefix s key_bitlen u nm = Inr (Some pfx) \<Longrightarrow>
          prefix_ok g (SCRadixNode (bitlen pfx) (Some pfx) 0 None None None)"
  proof -
    fix s pfx assume cp: "SCRadixCreatePrefix s key_bitlen u nm = Inr (Some pfx)"
    note f = create_prefix_facts [OF cp]
    have "8 * (key_bitlen div 8) = key_bitlen" using f(2) by presburger
    then show "prefix_ok g (SCRadixNode (bitlen pfx) (Some pfx) 0 None None None)"
      using f g by (simp add: prefix_ok_def)
  qed
  show "\<And>n npfx. prefix_ok g n \<Longrightarrow> prefix n = Some npfx \<Longrightarrow>
          prefix_ok g (set_prefix (Some (npfx\<lparr> user_data :=
             SCRadixAppendToSCRadixUserDataList (SCRadixUserData nm u) (user_data npfx) \<rparr>)) n)"
    using g by (auto simp: prefix_ok_def set_prefix_def append_user_data_set append_user_data_not_empty)
  show "\<And>n. prefix_ok g n \<Longrightarrow> prefix_ok g (add_netmask nm n)"
    by (simp add: prefix_ok_add_netmask)
  show "\<And>s pfx n np. SCRadixCreatePrefix s key_bitlen u nm = Inr (Some pfx) \<Longrightarrow>
          prefix_ok g n \<Longrightarrow> prefix n = None \<Longrightarrow> bit_pos n = bitlen pfx mod 256 \<Longrightarrow>
          SCRadixCreatePrefix (Some (stream pfx)) (bitlen pfx) u 255 = Inr np \<Longrightarrow>
          prefix_ok g (set_prefix np n)"
  proof -
    fix s pfx n np
    assume cp: "SCRadixCreatePrefix s key_bitlen u nm = Inr (Some pfx)"
      and bit: "bit_pos n = bitlen pfx mod 256"
      and cp2: "SCRadixCreatePrefix (Some (stream pfx)) (bitlen pfx) u 255 = Inr np"
    show "prefix_ok g (set_prefix np n)"
    proof (cases np)
      case None
      then show ?thesis by (simp add: prefix_ok_def set_prefix_def)
    next
      case (Some q)
      note f = create_prefix_facts [OF cp2 [unfolded Some]]
      have "8 * (bitlen pfx div 8) = bitlen pfx" using f(2) by presburger
      moreover have "bitlen pfx mod 256 \<le> bitlen pfx" by simp
      ultimately show ?thesis
        using f bit Some by (simp add: prefix_ok_def set_prefix_def)
    qed
  qed
  show "\<And>n d n' ic ins. prefix_ok g n \<Longrightarrow> split_netmasks d n = Inr (n', ic, ins) \<Longrightarrow>
          prefix_ok g n' \<and> prefix_ok g (SCRadixNode d None ic ins None None)"
    by (auto simp: split_netmasks_def prefix_ok_def Let_def split: option.splits if_splits)
qed

lemma remove_user_data_length: "length xs \<le> Suc (length (remove_user_data nm xs))"
  by (induction xs) auto

lemma remove_user_data_subset: "set (remove_user_data nm xs) \<subseteq> set xs"
  by (induction xs) auto

lemma remove_netblock_entry_shape:
  assumes "SCRadixRemoveNetblockEntry node nm = Inr node'" and "prefix node = Some npfx"
  shows "\<exists>c ns. node' = SCRadixNode (bit_pos node)
           (Some (npfx\<lparr> user_data := remove_user_data nm (user_data npfx) \<rparr>)) c ns (left node) (right node)"
  using assms
  by (auto simp: SCRadixRemoveNetblockEntry_def SCRadixRemoveNetmaskUserDataFromPrefix_def
      set_prefix_def Let_def split: if_splits option.splits)

lemma transfer_shape:
  assumes "SCRadixTransferNetmasksBWNodes dest src = Inr dest'"
  shows "\<exists>ns. dest' = SCRadixNode (bit_pos dest) (prefix dest) (netmask_cnt dest) ns (left dest) (right dest)"
  using assms
  by (cases dest) (auto simp: SCRadixTransferNetmasksBWNodes_def split: if_splits option.splits)

lemma remove_entry_prefix_ok:
  assumes inv: "all_tree (prefix_ok g) t"
    and here: "deref t p = Some node" and pfx: "prefix node = Some npfx"
    and many: "1 < length (user_data npfx)"
    and run: "SCRadixRemoveNetblockEntry node nm = Inr node'"
  shows "all_tree (prefix_ok g) (store t p (\<lambda>_. Some node'))"
proof -
  have an: "all_nodes (prefix_ok g) node" using inv here by (rule all_tree_deref)
  then have pn: "prefix_ok g node" by (rule all_nodes_self)
  from remove_netblock_entry_shape [OF run pfx] obtain c ns where
    n': "node' = SCRadixNode (bit_pos node)
         (Some (npfx\<lparr> user_data := remove_user_data nm (user_data npfx) \<rparr>)) c ns (left node) (right node)"
    by blast
  have "remove_user_data nm (user_data npfx) \<noteq> []"
    using many remove_user_data_length [of "user_data npfx" nm] by auto
  then have "prefix_ok g node'"
    using pn pfx remove_user_data_subset [of nm "user_data npfx"]
    by (auto simp: n' prefix_ok_def)
  then have "all_nodes (prefix_ok g) node'"
    unfolding n' using an by (intro all_nodes_fields)
  then show ?thesis
    by (intro all_tree_store [OF prefix_ok_local inv]) (simp add: all_tree_def)
qed

lemma remove_leaf_prefix_ok:
  assumes inv: "all_tree (prefix_ok g) t"
    and here: "deref t pp = Some parent" and ch: "child d parent = Some dest"
    and run: "SCRadixTransferNetmasksBWNodes dest parent = Inr dest'"
  shows "all_tree (prefix_ok g) (store t pp (\<lambda>_. Some dest'))"
proof -
  have "all_nodes (prefix_ok g) parent" using inv here by (rule all_tree_deref)
  then have ad: "all_nodes (prefix_ok g) dest" using ch by (rule all_nodes_child)
  from transfer_shape [OF run] obtain ns where
    d': "dest' = SCRadixNode (bit_pos dest) (prefix dest) (netmask_cnt dest) ns (left dest) (right dest)"
    by blast
  have "prefix_ok g dest'"
    using all_nodes_self [OF ad] by (simp add: d' prefix_ok_def split: option.splits)
  then have "all_nodes (prefix_ok g) dest'"
    unfolding d' using ad by (intro all_nodes_fields)
  then show ?thesis
    by (intro all_tree_store [OF prefix_ok_local inv]) (simp add: all_tree_def)
qed

lemma remove_key_prefix_ok:
  assumes inv: "all_tree (prefix_ok g) t"
    and run: "SCRadixRemoveKey key_stream key_bitlen t nm = Inr t'"
  shows "all_tree (prefix_ok g) t'"
  using run inv
  unfolding SCRadixRemoveKey_def SCRadixPrefixNetmaskCount_def
  by (auto split: option.splits sum.splits if_splits list.splits bool.splits
      intro: remove_entry_prefix_ok remove_leaf_prefix_ok all_tree_None)

subsection \<open>What a lookup preserves\<close>

lemma match_node_prefix_ok:
  assumes "match_node n s bl sel_bitlen exact_match = Inr (b, npfx)" and "prefix_ok g n"
  shows "prefix_ok g (set_prefix npfx n)"
  using assms
  by (auto simp: match_node_def SCRadixPrefixContainNetmaskAndSetUserData_def prefix_ok_def
      set_prefix_def split: option.splits sum.splits bool.splits list.splits if_splits)

lemma store_match_prefix_ok:
  assumes inv: "all_tree (prefix_ok g) t" and here: "deref t q = Some n"
    and m: "match_node n s bl sel_bitlen exact_match = Inr (b, npfx)"
  shows "all_tree (prefix_ok g) (store t q (\<lambda>n. Some (set_prefix npfx n)))"
proof -
  have "prefix_ok g n" using inv here all_tree_deref all_nodes_self by blast
  then have "prefix_ok g (set_prefix npfx n)" using m by (intro match_node_prefix_ok)
  then show ?thesis using inv here by (intro store_set_prefix_preserves prefix_ok_local)
qed

lemma netblock_loop_prefix_ok:
  "netblock_loop t bl ms s p = Inr (s', Some (res, t')) \<Longrightarrow> all_tree (prefix_ok g) t
     \<Longrightarrow> all_tree (prefix_ok g) t'"
proof (induction t bl ms s p rule: netblock_loop.induct)
  case (1 t bl s p)
  then show ?case by simp
next
  case (2 t bl m ms s p)
  let ?s1 = "chop_from 0 m (take (bl div 8) s) @ drop (bl div 8) s"
  from "2.prems"(1) obtain node where node: "deref t p = Some node"
    by (auto simp: Let_def split: option.splits)
  from "2.prems"(1) node obtain r where r: "find_walk_down ?s1 bl node p = Inr r"
    by (auto simp: Let_def split: sum.splits)
  show ?case
  proof (cases r)
    case None
    then have "t' = t" using "2.prems"(1) node r by (simp add: Let_def)
    then show ?thesis using "2.prems"(2) by simp
  next
    case (Some q)
    from "2.prems"(1) node r Some obtain n where n: "deref t q = Some n"
      by (auto simp: Let_def split: option.splits)
    show ?thesis
    proof (cases "bit_pos n \<noteq> bl \<or> prefix n = None")
      case True
      then have "t' = t" using "2.prems"(1) node r Some n by (auto simp: Let_def)
      then show ?thesis using "2.prems"(2) by simp
    next
      case False
      from "2.prems"(1) node r Some n False obtain b npfx where
        mn: "match_node n ?s1 bl bl False = Inr (b, npfx)"
        by (auto simp: Let_def split: sum.splits)
      show ?thesis
      proof (cases b)
        case True
        then have "t' = store t q (\<lambda>n. Some (set_prefix npfx n))"
          using "2.prems"(1) node r Some n False mn by (auto simp: Let_def)
        then show ?thesis using "2.prems"(2) n mn by (simp add: store_match_prefix_ok)
      next
        case bf: False
        then have lp: "netblock_loop t bl ms ?s1 q = Inr (s', Some (res, t'))"
          using "2.prems"(1) node r Some n False mn by (auto simp: Let_def)
        have bF: "b = False" using bf by simp
        show ?thesis
          by (rule "2.IH" [OF refl node r Some n False mn refl bF lp "2.prems"(2)])
      qed
    qed
  qed
qed

lemma find_netblock_prefix_ok:
  "SCRadixFindKeyIPNetblock t bl s p = Inr (res, t') \<Longrightarrow> all_tree (prefix_ok g) t
     \<Longrightarrow> all_tree (prefix_ok g) t'"
proof (induction p arbitrary: s)
  case Nil
  then show ?case
    by (auto split: option.splits sum.splits if_splits prod.splits
        dest: netblock_loop_prefix_ok)
next
  case (Cons d ps)
  from Cons.prems(1) obtain node where node: "deref t (d # ps) = Some node"
    by (auto split: option.splits)
  show ?case
  proof (cases "netmasks node")
    case None
    then have "SCRadixFindKeyIPNetblock t bl s ps = Inr (res, t')"
      using Cons.prems(1) node by simp
    then show ?thesis using Cons.IH Cons.prems(2) by blast
  next
    case (Some arr)
    from Cons.prems(1) node Some obtain s1 r where
      lp: "netblock_loop t bl (take (netmask_cnt node) arr) s (d # ps) = Inr (s1, r)"
      by (auto split: sum.splits if_splits)
    show ?thesis
    proof (cases r)
      case None
      then have "SCRadixFindKeyIPNetblock t bl s1 ps = Inr (res, t')"
        using Cons.prems(1) node Some lp by (auto split: if_splits)
      then show ?thesis using Cons.IH Cons.prems(2) by blast
    next
      case rs: (Some x)
      then have "x = (res, t')" using Cons.prems(1) node Some lp by (auto split: if_splits)
      then show ?thesis using lp rs Cons.prems(2) netblock_loop_prefix_ok by blast
    qed
  qed
qed

lemma find_key_prefix_ok:
  assumes inv: "all_tree (prefix_ok g) t"
    and run: "SCRadixFindKey key_stream key_bitlen t exact_match = Inr (res, t')"
  shows "all_tree (prefix_ok g) t'"
  using run inv
  unfolding SCRadixFindKey_def
  by (auto split: option.splits sum.splits if_splits bool.splits
      intro: store_match_prefix_ok find_netblock_prefix_ok)

lemma reachable_prefix_ok: "reachable t \<Longrightarrow> all_tree (prefix_ok False) t"
proof (induction rule: reachable.induct)
  case reachable_empty
  show ?case by (rule all_tree_None)
next
  case (reachable_add t key_stream key_bitlen u nm ks res t')
  have "False \<longrightarrow> nm = 255" by simp
  then show ?case using reachable_add.IH reachable_add.hyps(2) by (rule add_key_prefix_ok)
next
  case (reachable_remove t key_stream key_bitlen nm t')
  then show ?case using remove_key_prefix_ok by blast
next
  case (reachable_find t key_stream key_bitlen exact_match res t')
  then show ?case using find_key_prefix_ok by blast
qed


lemma generic_inserted_prefix_ok: "generic_inserted t \<Longrightarrow> all_tree (prefix_ok True) t"
proof (induction rule: generic_inserted.induct)
  case generic_empty
  show ?case by (rule all_tree_None)
next
  case (generic_add t key_stream key_bitlen u ks res t')
  have "True \<longrightarrow> (255::nat) = 255" by simp
  then show ?case
    using generic_add.IH generic_add.hyps(2) [unfolded SCRadixAddKeyGeneric_def]
    by (rule add_key_prefix_ok)
qed

lemma find_exact_miss:
  assumes inv: "all_tree (prefix_ok True) t"
    and kb: "key_bitlen mod 8 = 0" "0 < key_bitlen" and len: "key_bitlen div 8 \<le> length ks"
  shows "SCRadixFindKey (Some ks) key_bitlen t True = Inr (None, t)"
proof (cases t)
  case None
  then show ?thesis by (simp add: SCRadixFindKey_def)
next
  case (Some hd_node)
  let ?s = "take (key_bitlen div 8) ks"
  let ?pfx = "\<lparr> bitlen = key_bitlen, stream = ?s,
                user_data = [SCRadixAllocSCRadixUserData 255 0], user_data_result = 0 \<rparr>"
  have cp: "SCRadixCreatePrefix (Some ks) key_bitlen 0 255 = Inr (Some ?pfx)"
    using kb len by (simp add: SCRadixCreatePrefix_def)
  have ls: "length ?s = key_bitlen div 8" using len by simp
  have eight: "8 * (key_bitlen div 8) = key_bitlen" using kb(1) by presburger
  have "deref t [] = Some hd_node" using Some by (simp add: deref_def)
  moreover have "key_bitlen \<le> 8 * length ?s" using ls eight by simp
  ultimately obtain r where
    r: "find_walk_down ?s key_bitlen hd_node [] = Inr r"
    and rq: "\<forall>q. r = Some q \<longrightarrow> (\<exists>m. deref t q = Some m)"
    using find_walk_down_ok by blast
  show ?thesis
  proof (cases r)
    case None
    then show ?thesis using Some cp r by (simp add: SCRadixFindKey_def)
  next
    case rs: (Some q)
    then obtain m where m: "deref t q = Some m" using rq by blast
    show ?thesis
    proof (cases "bit_pos m \<noteq> key_bitlen \<or> prefix m = None")
      case True
      then show ?thesis using Some cp r rs m by (auto simp: SCRadixFindKey_def)
    next
      case False
      then obtain npfx where np: "prefix m = Some npfx" and bm: "bit_pos m = key_bitlen" by auto
      have "prefix_ok True m" using inv m all_tree_deref all_nodes_self by blast
      then have ne: "user_data npfx \<noteq> []" and lb: "key_bitlen \<le> 8 * length (stream npfx)"
        and gen: "\<forall>ud\<in>set (user_data npfx). netmask ud = 255"
        using np bm by (simp_all add: prefix_ok_def)
      from ne obtain ud rest where ud: "user_data npfx = ud # rest" by (cases "user_data npfx") auto
      have "netmask ud = 255" using gen ud by simp
      moreover have "(255::nat) mod 8 \<noteq> 0" by simp
      ultimately have neq: "netmask ud \<noteq> key_bitlen" using kb(1) by metis
      have "key_bitlen div 8 \<le> length (stream npfx)" using lb by simp
      then obtain b where mc: "stream_memcmp (stream npfx) ?s (key_bitlen div 8) = Inr b"
        using ls by (simp add: stream_memcmp_def)
      have "match_node m ?s key_bitlen key_bitlen True = Inr (False, Some npfx)"
        using np mc ud neq
        by (cases b) (simp_all add: match_node_def SCRadixPrefixContainNetmaskAndSetUserData_def)
      then show ?thesis using Some cp r rs m False by (simp add: SCRadixFindKey_def)
    qed
  qed
qed


lemma chop_from_length: "length (chop_from i nm xs) = length xs"
  by (induction xs arbitrary: i) auto


subsection \<open>The path of a descent\<close>

lemma all_nodes_mono_obj:
  "all_nodes P n \<Longrightarrow> \<forall>m. P m \<longrightarrow> Q m \<Longrightarrow> all_nodes Q n"
  by (induction P n rule: all_nodes.induct) (auto split: option.splits)

lemma all_nodes_mono:
  "all_nodes P n \<Longrightarrow> (\<And>m. P m \<Longrightarrow> Q m) \<Longrightarrow> all_nodes Q n"
  using all_nodes_mono_obj by blast

lemma update_at_Some:
  "node_at t ds = Some m \<Longrightarrow> \<exists>n'. update_at ds (\<lambda>_. Some x) t = Some n'"
  by (cases ds; cases t) auto

lemma find_walk_down_follow:
  "walk_path s bl n ds \<Longrightarrow> node_at (Some n) ds = Some m \<Longrightarrow>
   find_walk_down s bl n acc = find_walk_down s bl m (rev ds @ acc)"
proof (induction ds arbitrary: n acc)
  case Nil
  then show ?case by simp
next
  case (Cons d ds)
  from Cons.prems(1) obtain c where b: "bit_pos n < bl"
    and sb: "stream_bit s (bit_pos n) = Inr (d = GoRight)"
    and c: "child d n = Some c" and wp: "walk_path s bl c ds"
    by (auto split: option.splits)
  have nm: "node_at (Some c) ds = Some m" using Cons.prems(2) c by simp
  have "find_walk_down s bl n acc = find_walk_down s bl c (d # acc)"
    using b sb c by (cases n; cases d) auto
  also have "\<dots> = find_walk_down s bl m (rev ds @ d # acc)"
    using wp nm by (rule Cons.IH)
  finally show ?case by simp
qed

lemma walk_path_append:
  "walk_path s bl n (ds1 @ ds2) \<Longrightarrow> walk_path s bl n ds1"
  by (induction ds1 arbitrary: n) (auto split: option.splits)

lemma walk_path_node_at:
  "walk_path s bl n ds \<Longrightarrow> \<exists>m. node_at (Some n) ds = Some m"
  by (induction ds arbitrary: n) (auto split: option.splits)

lemma walk_path_inner_bit:
  "walk_path s bl n (ds1 @ d # ds2) \<Longrightarrow> node_at (Some n) ds1 = Some m \<Longrightarrow> bit_pos m < bl"
  by (induction ds1 arbitrary: n) (auto split: option.splits)

lemma add_walk_down_path:
  "add_walk_down s bl n acc = Inr bp \<Longrightarrow> all_nodes (\<lambda>n. bit_pos n \<le> bl) n \<Longrightarrow>
   8 * length s \<le> bl \<Longrightarrow>
   \<exists>ds m. bp = rev ds @ acc \<and> walk_path s bl n ds \<and> node_at (Some n) ds = Some m
          \<and> (bit_pos m = bl \<longrightarrow> prefix m \<noteq> None)"
proof (induction s bl n acc rule: add_walk_down.induct)
  case (1 s bl b pfx cnt nms l r p)
  let ?n = "SCRadixNode b pfx cnt nms l r"
  have ble: "b \<le> bl" using "1.prems"(2) by simp
  show ?case
  proof (cases "b < bl \<or> pfx = None")
    case False
    then have "bp = p" using "1.prems"(1) by auto
    then have "bp = rev [] @ p \<and> walk_path s bl ?n [] \<and> node_at (Some ?n) [] = Some ?n
                 \<and> (bit_pos ?n = bl \<longrightarrow> prefix ?n \<noteq> None)"
      using False by simp
    then show ?thesis by blast
  next
    case True
    have nlt: "\<not> bl < b" using ble by simp
    from "1.prems"(1) True nlt obtain x where sb: "stream_bit s b = Inr x"
      by (auto split: sum.splits)
    then have "b div 8 < length s" by (auto simp: stream_bit_def split: if_splits)
    then have blt: "b < bl" using "1.prems"(3) by simp
    let ?d = "if x then GoRight else GoLeft"
    show ?thesis
    proof (cases "child ?d ?n")
      case None
      then have "bp = p" using "1.prems"(1) True nlt sb by (cases x) auto
      then have "bp = rev [] @ p \<and> walk_path s bl ?n [] \<and> node_at (Some ?n) [] = Some ?n
                 \<and> (bit_pos ?n = bl \<longrightarrow> prefix ?n \<noteq> None)"
        using blt by simp
      then show ?thesis by blast
    next
      case (Some c)
      have rec: "add_walk_down s bl c (?d # p) = Inr bp"
        using "1.prems"(1) True nlt sb Some by (cases x) auto
      have ac: "all_nodes (\<lambda>n. bit_pos n \<le> bl) c"
        using "1.prems"(2) Some by (cases x) (auto split: if_splits)
      have "\<exists>ds m. bp = rev ds @ (?d # p) \<and> walk_path s bl c ds \<and> node_at (Some c) ds = Some m
          \<and> (bit_pos m = bl \<longrightarrow> prefix m \<noteq> None)"
      proof (cases x)
        case xt: True
        then have r: "r = Some c" using Some by simp
        have "x = True" using xt by simp
        from "1.IH"(2) [OF True nlt sb this r] rec ac "1.prems"(3) xt show ?thesis by simp
      next
        case xf: False
        then have l: "l = Some c" using Some by simp
        have "x = False" using xf by simp
        from "1.IH"(3) [OF True nlt sb this l] rec ac "1.prems"(3) xf show ?thesis by simp
      qed
      then obtain ds m where ds: "bp = rev ds @ (?d # p)" "walk_path s bl c ds"
        "node_at (Some c) ds = Some m" "bit_pos m = bl \<longrightarrow> prefix m \<noteq> None"
        by blast
      have "bp = rev (?d # ds) @ p \<and> walk_path s bl ?n (?d # ds)
              \<and> node_at (Some ?n) (?d # ds) = Some m \<and> (bit_pos m = bl \<longrightarrow> prefix m \<noteq> None)"
        using ds blt sb Some by (cases x) auto
      then show ?thesis by blast
    qed
  qed
qed

lemma differ_walk_up_suffix: "\<exists>xs. bp = xs @ differ_walk_up t d bp"
proof (induction bp)
  case Nil
  show ?case by simp
next
  case (Cons x bp)
  then obtain xs where "bp = xs @ differ_walk_up t d bp" by blast
  then have up: "x # bp = (x # xs) @ differ_walk_up t d bp" by simp
  have stay: "x # bp = [] @ (x # bp)" by simp
  have "differ_walk_up t d (x # bp) = differ_walk_up t d bp
          \<or> differ_walk_up t d (x # bp) = x # bp"
    by (cases "deref t bp") auto
  then show ?case using up stay by metis
qed

lemma differ_walk_up_moved:
  "differ_walk_up t d bp \<noteq> bp \<Longrightarrow> \<exists>n. deref t (differ_walk_up t d bp) = Some n \<and> d \<le> bit_pos n"
proof (induction bp)
  case Nil
  then show ?case by simp
next
  case (Cons x bp)
  from Cons.prems obtain parent where par: "deref t bp = Some parent" and le: "d \<le> bit_pos parent"
    and eq: "differ_walk_up t d (x # bp) = differ_walk_up t d bp"
    by (auto split: option.splits if_splits)
  show ?case
  proof (cases "differ_walk_up t d bp = bp")
    case True
    then show ?thesis using par le eq by simp
  next
    case False
    then show ?thesis using Cons.IH eq by simp
  qed
qed

lemma node_at_update_at:
  "node_at t ds = Some m \<Longrightarrow> node_at (update_at ds (\<lambda>_. Some x) t) ds = Some x"
proof (induction ds arbitrary: t)
  case Nil
  then show ?case by simp
next
  case (Cons d ds)
  then obtain n where n: "t = Some n" "node_at (child d n) ds = Some m"
    by (cases t) auto
  have "child d (set_child d c n) = c" for c by (cases n; cases d) simp_all
  then show ?case using n Cons.IH by simp
qed

lemma walk_path_update_at:
  "walk_path s bl n ds \<Longrightarrow> update_at ds (\<lambda>_. Some x) (Some n) = Some n'
     \<Longrightarrow> walk_path s bl n' ds"
proof (induction ds arbitrary: n n')
  case Nil
  then show ?case by simp
next
  case (Cons d ds)
  from Cons.prems(1) obtain c where b: "bit_pos n < bl"
    and sb: "stream_bit s (bit_pos n) = Inr (d = GoRight)"
    and c: "child d n = Some c" and wp: "walk_path s bl c ds"
    by (auto split: option.splits)
  have n': "n' = set_child d (update_at ds (\<lambda>_. Some x) (Some c)) n"
    using Cons.prems(2) c by simp
  have bit: "bit_pos (set_child d y n) = bit_pos n" for y by (cases n; cases d) simp_all
  have ch: "child d (set_child d y n) = y" for y by (cases n; cases d) simp_all
  show ?case
  proof (cases ds)
    case Nil
    then show ?thesis using n' b sb bit ch by simp
  next
    case (Cons e es)
    from walk_path_node_at [OF wp] obtain m where "node_at (Some c) ds = Some m" by blast
    then obtain c' where c': "update_at ds (\<lambda>_. Some x) (Some c) = Some c'"
      using Cons by (auto split: option.splits)
    have "walk_path s bl c' ds" using Cons.IH wp c' by blast
    then show ?thesis using n' c' b sb bit ch by simp
  qed
qed

lemma update_at_restore:
  "node_at t ds = Some m \<Longrightarrow> update_at ds (\<lambda>_. Some m) (update_at ds (\<lambda>_. Some x) t) = t"
proof (induction ds arbitrary: t)
  case Nil
  then show ?case by simp
next
  case (Cons d ds)
  then obtain n where n: "t = Some n" "node_at (child d n) ds = Some m"
    by (cases t) auto
  have ch: "child d (set_child d y n) = y" for y by (cases n; cases d) simp_all
  have ss: "set_child d z (set_child d y n) = set_child d z n" for y z by (cases n; cases d) simp_all
  have id: "set_child d (child d n) n = n" by (cases n; cases d) simp_all
  show ?case using n Cons.IH [OF n(2)] by (simp add: ch ss id)
qed

subsection \<open>Where an insertion registers the netmask\<close>


























subsection \<open>C1: the best match scenario\<close>

text \<open>
  C1. Starting from the empty tree, the netblocks 192.168.0.0/16, 192.171.128.0/24 and
  192.171.192.0/18 are inserted in this order (with the users 116, 124 and 118). Then the
  best match lookup returns the /16 entry for 192.168.1.6, the /24 entry for
  192.171.128.145, the /18 entry for 192.171.224.6, and no match for 192.171.64.6 and
  for 192.174.224.6.
\<close>

theorem C1_best_match_scenario:
  "\<exists>k1 k2 k3 p1 p2 p3 t1 t2 t3.
     SCRadixAddKeyIPV4Netblock (Some [192, 168, 0, 0]) None 116 16 = Inr (k1, Some p1, t1) \<and>
     SCRadixAddKeyIPV4Netblock (Some [192, 171, 128, 0]) t1 124 24 = Inr (k2, Some p2, t2) \<and>
     SCRadixAddKeyIPV4Netblock (Some [192, 171, 192, 0]) t2 118 18 = Inr (k3, Some p3, t3) \<and>
     found_entry (SCRadixFindKeyIPV4BestMatch (Some [192, 168, 1, 6]) t3) =
       Inr (Some ([192, 168, 0, 0], [SCRadixUserData 16 116], 116)) \<and>
     found_entry (SCRadixFindKeyIPV4BestMatch (Some [192, 171, 128, 145]) t3) =
       Inr (Some ([192, 171, 128, 0], [SCRadixUserData 24 124], 124)) \<and>
     found_entry (SCRadixFindKeyIPV4BestMatch (Some [192, 171, 224, 6]) t3) =
       Inr (Some ([192, 171, 192, 0], [SCRadixUserData 18 118], 118)) \<and>
     SCRadixFindKeyIPV4BestMatch (Some [192, 171, 64, 6]) t3 = Inr (None, t3) \<and>
     SCRadixFindKeyIPV4BestMatch (Some [192, 174, 224, 6]) t3 = Inr (None, t3)"
proof -
  let ?A = "SCRadixNode 32 (Some \<lparr> bitlen = 32, stream = [192, 168, 0, 0],
              user_data = [SCRadixUserData 16 116], user_data_result = 0 \<rparr>) 1 (Some [16]) None None"
  let ?B = "SCRadixNode 32 (Some \<lparr> bitlen = 32, stream = [192, 171, 128, 0],
              user_data = [SCRadixUserData 24 124], user_data_result = 0 \<rparr>) 1 (Some [24]) None None"
  let ?C = "SCRadixNode 32 (Some \<lparr> bitlen = 32, stream = [192, 171, 192, 0],
              user_data = [SCRadixUserData 18 118], user_data_result = 0 \<rparr>) 1 (Some [18]) None None"
  let ?t2 = "Some (SCRadixNode 14 None 0 (Some []) (Some ?A) (Some ?B))"
  let ?t3 = "Some (SCRadixNode 14 None 0 (Some []) (Some ?A)
                     (Some (SCRadixNode 17 None 0 (Some []) (Some ?B) (Some ?C))))"
  have i1: "SCRadixAddKeyIPV4Netblock (Some [192, 168, 0, 0]) None 116 16 =
              Inr (Some [192, 168, 0, 0], Some [], Some ?A)"
    by (simp add: add_key_defs)
  have i2: "SCRadixAddKeyIPV4Netblock (Some [192, 171, 128, 0]) (Some ?A) 124 24 =
              Inr (Some [192, 171, 128, 0], Some [GoRight], ?t2)"
    by (simp add: add_key_defs)
  have i3: "SCRadixAddKeyIPV4Netblock (Some [192, 171, 192, 0]) ?t2 118 18 =
              Inr (Some [192, 171, 192, 0], Some [GoRight, GoRight], ?t3)"
    by (simp add: add_key_defs)
  have f1: "found_entry (SCRadixFindKeyIPV4BestMatch (Some [192, 168, 1, 6]) ?t3) =
              Inr (Some ([192, 168, 0, 0], [SCRadixUserData 16 116], 116))"
    by (simp add: find_key_defs)
  have f2: "found_entry (SCRadixFindKeyIPV4BestMatch (Some [192, 171, 128, 145]) ?t3) =
              Inr (Some ([192, 171, 128, 0], [SCRadixUserData 24 124], 124))"
    by (simp add: find_key_defs)
  have f3: "found_entry (SCRadixFindKeyIPV4BestMatch (Some [192, 171, 224, 6]) ?t3) =
              Inr (Some ([192, 171, 192, 0], [SCRadixUserData 18 118], 118))"
    by (simp add: find_key_defs)
  have f4: "SCRadixFindKeyIPV4BestMatch (Some [192, 171, 64, 6]) ?t3 = Inr (None, ?t3)"
    by (simp add: find_key_defs)
  have f5: "SCRadixFindKeyIPV4BestMatch (Some [192, 174, 224, 6]) ?t3 = Inr (None, ?t3)"
    by (simp add: find_key_defs)
  show ?thesis
    apply (intro exI conjI)
           apply (rule i1)
          apply (rule i2)
         apply (rule i3)
        apply (rule f1)
       apply (rule f2)
      apply (rule f3)
     apply (rule f4)
    apply (rule f5)
    done
qed

subsection \<open>C2: the selection of the user data\<close>

text \<open>
  C2. For every prefix whose user data list is not empty and every query bit length:
  in exact mode the selection succeeds if and only if the netmask of the head entry
  equals the bit length, and then the head's user is written to \<open>user_data_result\<close>;
  in non-exact mode, a head whose netmask equals the bit length is skipped, the call
  succeeding with the second entry's user exactly when a second entry exists, and a
  head with another netmask is selected itself. A call that fails leaves the prefix
  as it was.
\<close>

theorem C2_select_user:
  assumes "user_data p = ud # rest"
  shows "SCRadixPrefixContainNetmaskAndSetUserData (Some p) bl True =
           (if netmask ud = bl then Inr (True, Some (p\<lparr> user_data_result := user ud \<rparr>))
            else Inr (False, Some p))
       \<and> SCRadixPrefixContainNetmaskAndSetUserData (Some p) bl False =
           (if netmask ud = bl
            then (if rest = [] then Inr (False, Some p)
                  else Inr (True, Some (p\<lparr> user_data_result := user (hd rest) \<rparr>)))
            else Inr (True, Some (p\<lparr> user_data_result := user ud \<rparr>)))"
  using assms
  by (auto simp: SCRadixPrefixContainNetmaskAndSetUserData_def split: list.splits)

text \<open>A prefix with a host entry and a /8 entry: the exact selection takes the host's
  user, the selection inside a netblock the user of the /8.\<close>

theorem C2_select_user_witness:
  "SCRadixPrefixContainNetmaskAndSetUserData
     (Some \<lparr> bitlen = 32, stream = [10, 0, 0, 0],
             user_data = [SCRadixUserData 32 7, SCRadixUserData 8 9], user_data_result = 0 \<rparr>)
     32 True =
     Inr (True, Some \<lparr> bitlen = 32, stream = [10, 0, 0, 0],
             user_data = [SCRadixUserData 32 7, SCRadixUserData 8 9], user_data_result = 7 \<rparr>)
   \<and> SCRadixPrefixContainNetmaskAndSetUserData
     (Some \<lparr> bitlen = 32, stream = [10, 0, 0, 0],
             user_data = [SCRadixUserData 32 7, SCRadixUserData 8 9], user_data_result = 0 \<rparr>)
     32 False =
     Inr (True, Some \<lparr> bitlen = 32, stream = [10, 0, 0, 0],
             user_data = [SCRadixUserData 32 7, SCRadixUserData 8 9], user_data_result = 9 \<rparr>)"
  using C2_select_user [of "\<lparr> bitlen = 32, stream = [10, 0, 0, 0],
             user_data = [SCRadixUserData 32 7, SCRadixUserData 8 9], user_data_result = 0 \<rparr>"
           "SCRadixUserData 32 7" "[SCRadixUserData 8 9]" 32]
  by simp

subsection \<open>C3: the order of the netmask arrays\<close>



text \<open>
  The netmask 32 of a key of 128 bits is taken for a host netmask as well: the netblock
  2001:db8::/32 is inserted into the empty tree, the netmask is not registered, and the
  best match lookup of the address 2001:db8::1 of that netblock finds nothing.
\<close>

lemma netmask_32_of_ipv6_key_not_registered:
  "SCRadixAddKeyIPV6Netblock (Some [0x20, 0x01, 0x0d, 0xb8, 0, 0, 0, 0, 0, 0, 0, 0, 0, 0, 0, 0]) None 7 32 =
     Inr (Some [0x20, 0x01, 0x0d, 0xb8, 0, 0, 0, 0, 0, 0, 0, 0, 0, 0, 0, 0], Some [],
          Some (SCRadixNode 128 (Some \<lparr> bitlen = 128,
                  stream = [0x20, 0x01, 0x0d, 0xb8, 0, 0, 0, 0, 0, 0, 0, 0, 0, 0, 0, 0],
                  user_data = [SCRadixUserData 32 7], user_data_result = 0 \<rparr>) 0 None None None))
   \<and> SCRadixFindKeyIPV6BestMatch (Some [0x20, 0x01, 0x0d, 0xb8, 0, 0, 0, 0, 0, 0, 0, 0, 0, 0, 0, 1])
         (Some (SCRadixNode 128 (Some \<lparr> bitlen = 128,
                  stream = [0x20, 0x01, 0x0d, 0xb8, 0, 0, 0, 0, 0, 0, 0, 0, 0, 0, 0, 0],
                  user_data = [SCRadixUserData 32 7], user_data_result = 0 \<rparr>) 0 None None None)) =
     Inr (None, Some (SCRadixNode 128 (Some \<lparr> bitlen = 128,
                  stream = [0x20, 0x01, 0x0d, 0xb8, 0, 0, 0, 0, 0, 0, 0, 0, 0, 0, 0, 0],
                  user_data = [SCRadixUserData 32 7], user_data_result = 0 \<rparr>) 0 None None None))"
proof -
  have "SCRadixAddKeyIPV6Netblock (Some [0x20, 0x01, 0x0d, 0xb8, 0, 0, 0, 0, 0, 0, 0, 0, 0, 0, 0, 0]) None 7 32 =
     Inr (Some [0x20, 0x01, 0x0d, 0xb8, 0, 0, 0, 0, 0, 0, 0, 0, 0, 0, 0, 0], Some [],
          Some (SCRadixNode 128 (Some \<lparr> bitlen = 128,
                  stream = [0x20, 0x01, 0x0d, 0xb8, 0, 0, 0, 0, 0, 0, 0, 0, 0, 0, 0, 0],
                  user_data = [SCRadixUserData 32 7], user_data_result = 0 \<rparr>) 0 None None None))"
    by (simp add: SCRadixAddKeyIPV6Netblock_def add_key_defs)
  moreover have "SCRadixFindKeyIPV6BestMatch (Some [0x20, 0x01, 0x0d, 0xb8, 0, 0, 0, 0, 0, 0, 0, 0, 0, 0, 0, 1])
         (Some (SCRadixNode 128 (Some \<lparr> bitlen = 128,
                  stream = [0x20, 0x01, 0x0d, 0xb8, 0, 0, 0, 0, 0, 0, 0, 0, 0, 0, 0, 0],
                  user_data = [SCRadixUserData 32 7], user_data_result = 0 \<rparr>) 0 None None None)) =
     Inr (None, Some (SCRadixNode 128 (Some \<lparr> bitlen = 128,
                  stream = [0x20, 0x01, 0x0d, 0xb8, 0, 0, 0, 0, 0, 0, 0, 0, 0, 0, 0, 0],
                  user_data = [SCRadixUserData 32 7], user_data_result = 0 \<rparr>) 0 None None None))"
    by (simp add: SCRadixFindKeyIPV6BestMatch_def find_key_defs)
  ultimately show ?thesis by (rule conjI)
qed


subsection \<open>C4: the netmasks of an intermediate node\<close>

text \<open>
  C4 (as the code has it). When an insertion creates an intermediate node with
  discriminator bit \<open>differ_bit\<close>, the propagation list of the existing node is cut at
  its first entry below \<open>differ_bit + 1\<close>: the entries before it stay on the existing
  node, that entry and all behind it go to the intermediate node. The list being in
  descending order, exactly the entries that are at least \<open>differ_bit + 1\<close> stay and
  exactly the entries below \<open>differ_bit + 1\<close> go to the intermediate node. The
  transfer never fails on a node whose array is in order.
\<close>

theorem C4_split_netmasks:
  assumes "netmasks_ok n"
  shows "\<exists>n' inter_cnt inter_netmasks.
           split_netmasks differ_bit n = Inr (n', inter_cnt, inter_netmasks) \<and>
           bit_pos n' = bit_pos n \<and> prefix n' = prefix n \<and> left n' = left n \<and> right n' = right n \<and>
           netmasks_in_use n' = takeWhile (\<lambda>m. \<not> m < differ_bit + 1) (netmasks_in_use n) \<and>
           netmasks_in_use (SCRadixNode differ_bit None inter_cnt inter_netmasks l r) =
             dropWhile (\<lambda>m. \<not> m < differ_bit + 1) (netmasks_in_use n) \<and>
           netmasks_in_use n' = filter (\<lambda>m. \<not> m < differ_bit + 1) (netmasks_in_use n) \<and>
           netmasks_in_use (SCRadixNode differ_bit None inter_cnt inter_netmasks l r) =
             filter (\<lambda>m. m < differ_bit + 1) (netmasks_in_use n)"
proof (cases "netmasks n")
  case None
  then show ?thesis
    by (cases n) (simp add: split_netmasks_def netmasks_in_use_def)
next
  case (Some arr)
  let ?c = "netmask_cnt n"
  let ?u = "take ?c arr"
  let ?P = "\<lambda>m. \<not> m < differ_bit + 1"
  let ?i = "first_below differ_bit ?u"
  have c: "?c \<le> length arr" and srt: "sorted_wrt (\<ge>) ?u"
    using assms Some by (simp_all add: netmasks_ok_def)
  have u: "netmasks_in_use n = ?u" using Some by (simp add: netmasks_in_use_def)
  have i: "?i \<le> ?c" using first_below_le [of differ_bit ?u] c by simp
  have il: "?i = length (takeWhile ?P ?u)" by (rule first_below_takeWhile)
  have keep: "take ?i arr = takeWhile ?P ?u"
  proof -
    have "take ?i arr = take ?i ?u" using i by (simp add: min_absorb1)
    also have "\<dots> = take (length (takeWhile ?P ?u)) ?u" by (simp only: il)
    also have "\<dots> = takeWhile ?P ?u" by (rule takeWhile_eq_take [symmetric])
    finally show ?thesis .
  qed
  have move: "take (?c - ?i) (drop ?i arr) = dropWhile ?P ?u"
  proof -
    have "take (?c - ?i) (drop ?i arr) = drop ?i ?u"
      by (simp add: drop_take)
    also have "\<dots> = drop (length (takeWhile ?P ?u)) ?u" by (simp only: il)
    also have "\<dots> = dropWhile ?P ?u" by (rule dropWhile_eq_drop [symmetric])
    finally show ?thesis .
  qed
  have zero: "?i = 0 \<Longrightarrow> takeWhile ?P ?u = []" using il by simp
  let ?n' = "SCRadixNode (bit_pos n) (prefix n) ?i (if ?i = 0 then None else Some arr) (left n) (right n)"
  have sp: "split_netmasks differ_bit n = Inr (?n', ?c - ?i, Some (take (?c - ?i) (drop ?i arr)))"
    using Some c by (simp add: split_netmasks_def Let_def)
  have k: "netmasks_in_use ?n' = takeWhile ?P ?u"
    using keep zero by (simp add: netmasks_in_use_def)
  have m: "netmasks_in_use (SCRadixNode differ_bit None (?c - ?i) (Some (take (?c - ?i) (drop ?i arr))) l r)
             = dropWhile ?P ?u"
  proof -
    have "netmasks_in_use (SCRadixNode differ_bit None (?c - ?i) (Some (take (?c - ?i) (drop ?i arr))) l r)
            = take (?c - ?i) (take (?c - ?i) (drop ?i arr))"
      by (simp only: netmasks_in_use_def SCRadixNode.sel option.case)
    also have "\<dots> = take (?c - ?i) (drop ?i arr)" by simp
    also note move
    finally show ?thesis .
  qed
  have kf: "takeWhile ?P ?u = filter ?P ?u" using srt by (rule descending_takeWhile_filter)
  have mf: "dropWhile ?P ?u = filter (\<lambda>m. m < differ_bit + 1) ?u"
    using srt by (rule descending_dropWhile_filter)
  show ?thesis
    using sp k m kf mf u by simp
qed

text \<open>A node with the netmasks 24, 16 and the discriminator bit 17: 24 stays, 16 goes
  to the intermediate node.\<close>

theorem C4_split_netmasks_witness:
  "netmasks_ok (SCRadixNode 32 None 2 (Some [24, 16]) None None)
   \<and> (\<exists>n' inter_cnt inter_netmasks.
         split_netmasks 17 (SCRadixNode 32 None 2 (Some [24, 16]) None None) =
           Inr (n', inter_cnt, inter_netmasks)
         \<and> netmasks_in_use n' = [24]
         \<and> netmasks_in_use (SCRadixNode 17 None inter_cnt inter_netmasks None None) = [16])"
proof -
  have ok: "netmasks_ok (SCRadixNode 32 None 2 (Some [24, 16]) None None)"
    by (simp add: netmasks_ok_def)
  have u: "netmasks_in_use (SCRadixNode 32 None 2 (Some [24, 16]) None None) = [24, 16]"
    by (simp add: netmasks_in_use_def)
  show ?thesis
    using ok C4_split_netmasks [OF ok, of 17 None None] by (auto simp: u)
qed

text \<open>
  The statement that the entries of at least \<open>differ_bit + 1\<close> go to the intermediate
  node fails: the node of 10.1.0.0 holds the netmasks 24, 16, and 10.1.64.0/18 is
  inserted. The intermediate node has the discriminator bit 17; it receives the
  netmask 16, and the netmask 24 stays with the node of 10.1.0.0.
\<close>

theorem C4_partition_counterexample:
  "SCRadixAddKeyIPV4Netblock (Some [10, 1, 64, 0]) (Some (SCRadixNode 32 (Some \<lparr> bitlen = 32, stream = [10, 1, 0, 0],
              user_data = [SCRadixUserData 24 7, SCRadixUserData 16 9], user_data_result = 0 \<rparr>)
              2 (Some [24, 16]) None None)) 5 18 =
     Inr (Some [10, 1, 64, 0], Some [GoRight],
          Some (SCRadixNode 17 None 1 (Some [16])
                 (Some (SCRadixNode 32 (Some \<lparr> bitlen = 32, stream = [10, 1, 0, 0],
              user_data = [SCRadixUserData 24 7, SCRadixUserData 16 9], user_data_result = 0 \<rparr>)
              1 (Some [24, 16]) None None))
                 (Some (SCRadixNode 32 (Some \<lparr> bitlen = 32, stream = [10, 1, 64, 0],
              user_data = [SCRadixUserData 18 5], user_data_result = 0 \<rparr>)
              1 (Some [18]) None None))))
   \<and> netmasks_in_use (SCRadixNode 32 (Some \<lparr> bitlen = 32, stream = [10, 1, 0, 0],
              user_data = [SCRadixUserData 24 7, SCRadixUserData 16 9], user_data_result = 0 \<rparr>)
              1 (Some [24, 16]) None None) = [24]"
  by (simp add: add_key_defs netmasks_in_use_def)

subsection \<open>C5: insertion followed by removal\<close>

text \<open>
  From the empty tree the round trip holds for every netmask: inserting a valid key (a bit
  length that is a positive multiple of 8 and a stream of that many bits) and then
  removing the same key (as the insertion leaves it in the buffer) with the same netmask
  gives the empty tree again.
\<close>

lemma roundtrip_from_empty:
  assumes "key_bitlen mod 8 = 0" and "0 < key_bitlen" and "key_bitlen div 8 \<le> length s"
  shows "\<exists>ks t. SCRadixAddKey (Some s) key_bitlen None u nm = Inr (Some ks, Some [], Some t)
           \<and> SCRadixRemoveKey (Some ks) key_bitlen (Some t) nm = Inr None"
proof -
  define b where "b = key_bitlen div 8"
  define ks where "ks = chop_from 0 nm (take b s) @ drop b s"
  define pfx where "pfx = \<lparr> bitlen = key_bitlen, stream = take b ks,
                user_data = [SCRadixUserData nm u], user_data_result = 0 \<rparr>"
  define qry where "qry = \<lparr> bitlen = key_bitlen, stream = take b ks,
                user_data = [SCRadixUserData 255 0], user_data_result = 0 \<rparr>"
  have b0: "b \<noteq> 0" using assms(1,2) unfolding b_def by presburger
  have lks: "b \<le> length ks" using assms(3) by (simp add: ks_def b_def chop_from_length)
  have chop: "SCRadixChopIPAddressAgainstNetmask (Some s) nm key_bitlen = Inr (Some ks)"
    using b0 assms(3)
    by (simp add: SCRadixChopIPAddressAgainstNetmask_def Let_def ks_def b_def)
  have cp: "SCRadixCreatePrefix (Some ks) key_bitlen u nm = Inr (Some pfx)"
    using assms(1,2) lks
    by (simp add: SCRadixCreatePrefix_def SCRadixAllocSCRadixUserData_def pfx_def b_def)
  have add: "SCRadixAddKey (Some s) key_bitlen None u nm =
               Inr (Some ks, Some [], Some (add_first_node pfx nm))"
    by (simp add: SCRadixAddKey_def chop cp)
  have cp0: "SCRadixCreatePrefix (Some ks) key_bitlen 0 255 = Inr (Some qry)"
    using assms(1,2) lks
    by (simp add: SCRadixCreatePrefix_def SCRadixAllocSCRadixUserData_def qry_def b_def)
  have pf: "bitlen pfx = key_bitlen" "stream pfx = take b ks" "user_data pfx = [SCRadixUserData nm u]"
    by (simp_all add: pfx_def)
  have qf: "bitlen qry = key_bitlen" "stream qry = take b ks"
    by (simp_all add: qry_def)
  have "\<exists>c ns. add_first_node pfx nm = SCRadixNode key_bitlen (Some pfx) c ns None None"
    by (simp add: add_first_node_def pf)
  then obtain c ns where leaf: "add_first_node pfx nm = SCRadixNode key_bitlen (Some pfx) c ns None None"
    by blast
  have mc: "stream_memcmp (take b ks) (take b ks) b = Inr True"
    using lks by (simp add: stream_memcmp_def)
  have rem: "SCRadixRemoveKey (Some ks) key_bitlen (Some (SCRadixNode key_bitlen (Some pfx) c ns None None)) nm = Inr None"
    by (simp add: SCRadixRemoveKey_def cp0 qf pf deref_def mc b_def [symmetric]
        SCRadixPrefixContainNetmask_def SCRadixPrefixNetmaskCount_def)
  show ?thesis using add rem leaf by simp
qed

text \<open>
  The round trip also holds in a tree of host entries: no node has a netmask array,
  no bit position exceeds \<open>key_bitlen\<close>, and every stored prefix has an entry with the
  netmask \<open>nm\<close>, which is one of the host netmasks 255, 32 and 128. The key is valid (a
  bit length below 256 that is a positive multiple of 8, and a stream of that many bits).
  When the insertion of the key with \<open>nm\<close> returns and has changed the tree, the removal
  of the same key (as the insertion leaves it in the buffer) with \<open>nm\<close> returns the tree
  before the insertion.
\<close>

lemma roundtrip_host_entries:
  assumes U: "all_tree (host_node key_bitlen nm) t"
    and V: "key_bitlen mod 8 = 0" "0 < key_bitlen" "key_bitlen < 256" "key_bitlen div 8 \<le> length s"
    and H: "nm = 255 \<or> nm = 32 \<or> nm = 128"
    and R: "SCRadixAddKey (Some s) key_bitlen t u nm = Inr (ks, res, t')"
    and C: "t' \<noteq> t"
  shows "SCRadixRemoveKey ks key_bitlen t' nm = Inr t"
proof -
  define b where "b = key_bitlen div 8"
  define ks0 where "ks0 = chop_from 0 nm (take b s) @ drop b s"
  define st where "st = take b ks0"
  define pfx where "pfx = \<lparr> bitlen = key_bitlen, stream = st,
                user_data = [SCRadixUserData nm u], user_data_result = 0 \<rparr>"
  define qry where "qry = \<lparr> bitlen = key_bitlen, stream = st,
                user_data = [SCRadixUserData 255 0], user_data_result = 0 \<rparr>"
  have b0: "b \<noteq> 0" using V(1,2) unfolding b_def by presburger
  have eight: "8 * b = key_bitlen" using V(1) unfolding b_def by presburger
  have lks: "b \<le> length ks0" using V(4) by (simp add: ks0_def b_def chop_from_length)
  have lst: "length st = b" using lks by (simp add: st_def)
  have chop: "SCRadixChopIPAddressAgainstNetmask (Some s) nm key_bitlen = Inr (Some ks0)"
    using b0 V(4)
    by (simp add: SCRadixChopIPAddressAgainstNetmask_def Let_def ks0_def b_def)
  have cp: "SCRadixCreatePrefix (Some ks0) key_bitlen u nm = Inr (Some pfx)"
    using V(1,2) lks
    by (simp add: SCRadixCreatePrefix_def SCRadixAllocSCRadixUserData_def pfx_def st_def b_def)
  have cp0: "SCRadixCreatePrefix (Some ks0) key_bitlen 0 255 = Inr (Some qry)"
    using V(1,2) lks
    by (simp add: SCRadixCreatePrefix_def SCRadixAllocSCRadixUserData_def qry_def st_def b_def)
  have pf: "bitlen pfx = key_bitlen" "stream pfx = st" "user_data pfx = [SCRadixUserData nm u]"
    by (simp_all add: pfx_def)
  have qf: "bitlen qry = key_bitlen" "stream qry = st"
    by (simp_all add: qry_def)
  have bl: "key_bitlen mod 256 = key_bitlen" using V(3) by simp
  have mc: "stream_memcmp st st b = Inr True"
    using lst by (simp add: stream_memcmp_def)
  have ks: "ks = Some ks0" using R chop cp by (auto simp: SCRadixAddKey_def Let_def split: option.splits sum.splits prod.splits if_splits)
  let ?new = "SCRadixNode key_bitlen (Some pfx) 0 None None None"
  show ?thesis
  proof (cases t)
    case None
    have fn: "add_first_node pfx nm = ?new" using H by (auto simp: add_first_node_def pf)
    have t': "t' = Some ?new" using R chop cp None fn by (simp add: SCRadixAddKey_def)
    have "SCRadixRemoveKey (Some ks0) key_bitlen (Some ?new) nm = Inr None"
      by (simp add: SCRadixRemoveKey_def cp0 qf pf deref_def mc b_def [symmetric]
          SCRadixPrefixContainNetmask_def SCRadixPrefixNetmaskCount_def)
    then show ?thesis using ks t' None by simp
  next
    case (Some hd_node)
    from R chop cp Some bl obtain bottom differ_bit p node where
      loc: "add_locate t hd_node st key_bitlen = Inr (bottom, differ_bit, p)" and
      here: "deref t p = Some node"
      by (auto simp: SCRadixAddKey_def Let_def pf split: sum.splits option.splits prod.splits)
    from loc obtain bp d0 where
      wd: "add_walk_down st key_bitlen hd_node [] = Inr bp" and
      bot: "deref t bp = Some bottom" and
      dbit: "differ_bit = (if (if bit_pos bottom < key_bitlen then bit_pos bottom else key_bitlen) < d0
                           then (if bit_pos bottom < key_bitlen then bit_pos bottom else key_bitlen) else d0)" and
      p: "p = differ_walk_up t differ_bit bp"
      by (auto simp: add_locate_def Let_def split: sum.splits option.splits)
    have dle: "differ_bit \<le> key_bitlen" "differ_bit \<le> bit_pos bottom"
      using dbit by (auto split: if_splits)
    have uh: "all_nodes (host_node key_bitlen nm) hd_node" using U Some by (simp add: all_tree_def)
    have "all_nodes (\<lambda>n. bit_pos n \<le> key_bitlen) hd_node"
      using uh by (rule all_nodes_mono) (simp add: host_node_def)
    moreover have "8 * length st \<le> key_bitlen" using lst eight by simp
    ultimately obtain ds m where
      ds: "bp = rev ds @ []" "walk_path st key_bitlen hd_node ds" "node_at (Some hd_node) ds = Some m"
          "bit_pos m = key_bitlen \<longrightarrow> prefix m \<noteq> None"
      using add_walk_down_path [OF wd] by blast
    have mb: "m = bottom" using ds(1,3) bot Some by (simp add: deref_def)
    obtain xs where xs: "bp = xs @ p" using differ_walk_up_suffix [of bp t differ_bit] p by blast
    have dsp: "ds = rev p @ rev xs" using ds(1) xs by (metis append_Nil2 rev_append rev_rev_ident)
    have wp: "walk_path st key_bitlen hd_node (rev p)"
      using ds(2) dsp walk_path_append by simp
    have np: "node_at (Some hd_node) (rev p) = Some node" using here Some by (simp add: deref_def)
    have un: "host_node key_bitlen nm node"
      using U here all_tree_deref all_nodes_self by blast
    have top: "bit_pos node = key_bitlen \<Longrightarrow> p = bp \<and> prefix node \<noteq> None"
    proof -
      assume bk: "bit_pos node = key_bitlen"
      have "xs = []"
      proof (rule ccontr)
        assume "xs \<noteq> []"
        then obtain e es where "rev xs = e # es" by (cases "rev xs") auto
        then have "ds = rev p @ e # es" using dsp by simp
        then have "bit_pos node < key_bitlen"
          using ds(2) np walk_path_inner_bit by blast
        then show False using bk by simp
      qed
      then have "p = bp" using xs by simp
      then have "node = bottom" using here bot by simp
      then show ?thesis using \<open>p = bp\<close> ds(4) mb bk by simp
    qed
    have notA: "\<not> (differ_bit = key_bitlen \<and> bit_pos node = key_bitlen)"
    proof
      assume a: "differ_bit = key_bitlen \<and> bit_pos node = key_bitlen"
      then obtain npfx where npfx: "prefix node = Some npfx" using top by auto
      then have "SCRadixPrefixContainNetmask (Some npfx) nm"
        using un by (simp add: host_node_def SCRadixPrefixContainNetmask_def)
      then have "add_existing t p node pfx u nm = Inr (Some p, t)"
        using npfx by (simp add: add_existing_def)
      then have "t' = t"
        using R chop cp Some bl loc here a by (simp add: SCRadixAddKey_def Let_def pf)
      then show False using C by simp
    qed
    have dlt: "differ_bit < key_bitlen"
    proof (rule ccontr)
      assume "\<not> differ_bit < key_bitlen"
      then have dk: "differ_bit = key_bitlen" using dle(1) by simp
      then have nk: "bit_pos node \<noteq> key_bitlen" using notA by simp
      have "bit_pos node \<le> key_bitlen" using un by (simp add: host_node_def)
      then have nlt: "bit_pos node < key_bitlen" using nk by simp
      show False
      proof (cases "p = bp")
        case True
        then have "node = bottom" using here bot by simp
        then show False using dle(2) dk nlt by simp
      next
        case False
        then obtain n where "deref t p = Some n" "differ_bit \<le> bit_pos n"
          using differ_walk_up_moved [of t differ_bit bp] p by auto
        then show False using here dk nlt by simp
      qed
    qed
    have nn: "netmasks node = None" using un by (simp add: host_node_def)
    have sn: "split_netmasks differ_bit node = Inr (node, 0, None)"
      using nn by (simp add: split_netmasks_def)
    have "differ_bit div 8 < length st" using dlt lst eight by simp
    then obtain bb where sb: "stream_bit st differ_bit = Inr bb" by (simp add: stream_bit_def)
    define dd where "dd = (if bb then GoRight else GoLeft)"
    define inter where "inter = SCRadixNode differ_bit None 0 None
                                  (if bb then Some node else Some ?new)
                                  (if bb then Some ?new else Some node)"
    have sp: "add_splice t p node bottom pfx key_bitlen differ_bit =
                Inr (store t p (\<lambda>_. Some inter), dd # p)"
      using dlt sn sb by (simp add: add_splice_def Let_def pf inter_def dd_def)
    have t': "t' = store t p (\<lambda>_. Some inter)"
      using R chop cp Some bl loc here notA sp H
      by (auto simp: SCRadixAddKey_def Let_def pf register_netmask_def)
    obtain hd' where hd': "t' = Some hd'"
      using update_at_Some [OF np, of inter] t' Some by (auto simp: store_def)
    have upd: "update_at (rev p) (\<lambda>_. Some inter) (Some hd_node) = Some hd'"
      using t' hd' Some by (simp add: store_def)
    have wp': "walk_path st key_bitlen hd' (rev p)"
      using wp upd by (rule walk_path_update_at)
    have ni: "node_at (Some hd') (rev p) = Some inter"
      using node_at_update_at [OF np, of inter] upd by simp
    have ib: "bit_pos inter = differ_bit" "child dd inter = Some ?new"
      "child (other dd) inter = Some node" "netmasks inter = None"
      by (simp_all add: inter_def dd_def other_def)
    have "find_walk_down st key_bitlen inter p = Inr (Some (dd # p))"
      using dlt sb by (simp add: inter_def dd_def)
    then have fw: "find_walk_down st key_bitlen hd' [] = Inr (Some (dd # p))"
      using find_walk_down_follow [OF wp' ni, of "[]"] by simp
    have dnew: "deref t' (dd # p) = Some ?new"
      using ni ib(2) hd' by (simp add: deref_def node_at_append)
    have dint: "deref t' p = Some inter" using ni hd' by (simp add: deref_def)
    have tr: "SCRadixTransferNetmasksBWNodes node inter = Inr node"
      using ib(4) by (simp add: SCRadixTransferNetmasksBWNodes_def)
    have rest: "store t' p (\<lambda>_. Some node) = t"
      unfolding t' store_def using np Some by (simp add: update_at_restore)
    have "SCRadixRemoveKey (Some ks0) key_bitlen (Some hd') nm = Inr t"
      using fw dnew dint tr rest hd'
      by (simp add: SCRadixRemoveKey_def cp0 qf pf mc b_def [symmetric] ib
          SCRadixPrefixContainNetmask_def SCRadixPrefixNetmaskCount_def)
    then show ?thesis using ks hd' by simp
  qed
qed

text \<open>
  The tree holds the host 192.168.1.1; the host 10.0.0.1 is inserted, which puts an
  intermediate node of bit 0 at the head, and removed again.
\<close>

lemma roundtrip_host_entries_example:
  "SCRadixRemoveKey (Some [10, 0, 0, 1]) 32
     (Some (SCRadixNode 0 None 0 None
        (Some (SCRadixNode 32 (Some \<lparr> bitlen = 32, stream = [10, 0, 0, 1],
                 user_data = [SCRadixUserData 32 7], user_data_result = 0 \<rparr>)
                 0 None None None))
        (Some (SCRadixNode 32 (Some \<lparr> bitlen = 32, stream = [192, 168, 1, 1],
                 user_data = [SCRadixUserData 32 1], user_data_result = 0 \<rparr>)
                 0 None None None)))) 32 =
   Inr (Some (SCRadixNode 32 (Some \<lparr> bitlen = 32, stream = [192, 168, 1, 1],
                 user_data = [SCRadixUserData 32 1], user_data_result = 0 \<rparr>)
                 0 None None None))"
proof -
  let ?A = "SCRadixNode 32 (Some \<lparr> bitlen = 32, stream = [192, 168, 1, 1],
              user_data = [SCRadixUserData 32 1], user_data_result = 0 \<rparr>)
              0 None None None"
  let ?B = "SCRadixNode 32 (Some \<lparr> bitlen = 32, stream = [10, 0, 0, 1],
              user_data = [SCRadixUserData 32 7], user_data_result = 0 \<rparr>)
              0 None None None"
  let ?I = "SCRadixNode 0 None 0 None (Some ?B) (Some ?A)"
  have h: "all_tree (host_node 32 32) (Some ?A)"
    by (simp add: all_tree_def host_node_def)
  have a: "SCRadixAddKey (Some [10, 0, 0, 1]) 32 (Some ?A) 7 32 =
             Inr (Some [10, 0, 0, 1], Some [GoLeft], Some ?I)"
    by (simp add: add_key_defs)
  have c: "Some ?I \<noteq> Some ?A" by simp
  show ?thesis
    using roundtrip_host_entries [OF h _ _ _ _ _ a c] by simp
qed

text \<open>
  A duplicate is not undone: the tree holds 10.0.0.0/8. Inserting 10.0.0.0/8 again changes
  nothing, and the removal then deletes the entry that was there before the insertion: the
  tree is empty.
\<close>

lemma duplicate_then_remove:
  "SCRadixAddKeyIPV4Netblock (Some [10, 0, 0, 0])
     (Some (SCRadixNode 32 (Some \<lparr> bitlen = 32, stream = [10, 0, 0, 0],
              user_data = [SCRadixUserData 8 7], user_data_result = 0 \<rparr>)
              1 (Some [8]) None None)) 7 8 =
     Inr (Some [10, 0, 0, 0], Some [],
          Some (SCRadixNode 32 (Some \<lparr> bitlen = 32, stream = [10, 0, 0, 0],
                  user_data = [SCRadixUserData 8 7], user_data_result = 0 \<rparr>)
                  1 (Some [8]) None None))
   \<and> SCRadixRemoveKeyIPV4Netblock (Some [10, 0, 0, 0])
     (Some (SCRadixNode 32 (Some \<lparr> bitlen = 32, stream = [10, 0, 0, 0],
              user_data = [SCRadixUserData 8 7], user_data_result = 0 \<rparr>)
              1 (Some [8]) None None)) 8 = Inr None"
proof -
  let ?A = "SCRadixNode 32 (Some \<lparr> bitlen = 32, stream = [10, 0, 0, 0],
              user_data = [SCRadixUserData 8 7], user_data_result = 0 \<rparr>)
              1 (Some [8]) None None"
  have "SCRadixAddKeyIPV4Netblock (Some [10, 0, 0, 0]) (Some ?A) 7 8 =
          Inr (Some [10, 0, 0, 0], Some [], Some ?A)"
    by (simp add: add_key_defs)
  moreover have "SCRadixRemoveKeyIPV4Netblock (Some [10, 0, 0, 0]) (Some ?A) 8 = Inr None"
    by (simp add: remove_key_defs)
  ultimately show ?thesis by simp
qed

text \<open>
  C5. An insertion followed by the removal of the same key and netmask should give back
  the tree as it was. The tree holds the hosts 192.168.0.0 and 192.168.0.1, inserted into
  the empty tree. The netblock 192.168.0.0/16 is not in the tree; its
  insertion puts the entry into the prefix of the key, which exists, and registers the
  netmask 16 at the head of the tree, where the walk up from the node of the key ends.
  The removal of 192.168.0.0/16 takes the entry out of the prefix again, but the netmask
  16 stays in the propagation list of the head: \<^verbatim>\<open>SCRadixRemoveNetblockEntry\<close> walks up
  to the head (\<^verbatim>\<open>local_node\<close>) and then searches the netmasks of the node it started from.
  The tree after the removal is not the tree before the insertion.
\<close>

theorem C5_netmask_stays_registered:
  "SCRadixAddKeyIPV4 (Some [192, 168, 0, 0]) None 1 =
     Inr (Some [192, 168, 0, 0], Some [], Some (SCRadixNode 32 (Some \<lparr> bitlen = 32, stream = [192, 168, 0, 0],
              user_data = [SCRadixUserData 32 1], user_data_result = 0 \<rparr>) 0 None None None))
   \<and> SCRadixAddKeyIPV4 (Some [192, 168, 0, 1]) (Some (SCRadixNode 32 (Some \<lparr> bitlen = 32, stream = [192, 168, 0, 0],
              user_data = [SCRadixUserData 32 1], user_data_result = 0 \<rparr>) 0 None None None)) 2 =
     Inr (Some [192, 168, 0, 1], Some [GoRight], Some (SCRadixNode 31 None 0 None
        (Some (SCRadixNode 32 (Some \<lparr> bitlen = 32, stream = [192, 168, 0, 0],
              user_data = [SCRadixUserData 32 1], user_data_result = 0 \<rparr>) 0 None None None))
        (Some (SCRadixNode 32 (Some \<lparr> bitlen = 32, stream = [192, 168, 0, 1],
              user_data = [SCRadixUserData 32 2], user_data_result = 0 \<rparr>) 0 None None None))))
   \<and> SCRadixAddKeyIPV4Netblock (Some [192, 168, 0, 0]) (Some (SCRadixNode 31 None 0 None
        (Some (SCRadixNode 32 (Some \<lparr> bitlen = 32, stream = [192, 168, 0, 0],
              user_data = [SCRadixUserData 32 1], user_data_result = 0 \<rparr>) 0 None None None))
        (Some (SCRadixNode 32 (Some \<lparr> bitlen = 32, stream = [192, 168, 0, 1],
              user_data = [SCRadixUserData 32 2], user_data_result = 0 \<rparr>) 0 None None None)))) 9 16 =
     Inr (Some [192, 168, 0, 0], None, Some (SCRadixNode 31 None 1 (Some [16])
        (Some (SCRadixNode 32 (Some \<lparr> bitlen = 32, stream = [192, 168, 0, 0],
              user_data = [SCRadixUserData 32 1, SCRadixUserData 16 9], user_data_result = 0 \<rparr>)
              0 None None None))
        (Some (SCRadixNode 32 (Some \<lparr> bitlen = 32, stream = [192, 168, 0, 1],
              user_data = [SCRadixUserData 32 2], user_data_result = 0 \<rparr>) 0 None None None))))
   \<and> SCRadixRemoveKeyIPV4Netblock (Some [192, 168, 0, 0]) (Some (SCRadixNode 31 None 1 (Some [16])
        (Some (SCRadixNode 32 (Some \<lparr> bitlen = 32, stream = [192, 168, 0, 0],
              user_data = [SCRadixUserData 32 1, SCRadixUserData 16 9], user_data_result = 0 \<rparr>)
              0 None None None))
        (Some (SCRadixNode 32 (Some \<lparr> bitlen = 32, stream = [192, 168, 0, 1],
              user_data = [SCRadixUserData 32 2], user_data_result = 0 \<rparr>) 0 None None None)))) 16 =
     Inr (Some (SCRadixNode 31 None 1 (Some [16])
        (Some (SCRadixNode 32 (Some \<lparr> bitlen = 32, stream = [192, 168, 0, 0],
              user_data = [SCRadixUserData 32 1], user_data_result = 0 \<rparr>) 0 None None None))
        (Some (SCRadixNode 32 (Some \<lparr> bitlen = 32, stream = [192, 168, 0, 1],
              user_data = [SCRadixUserData 32 2], user_data_result = 0 \<rparr>) 0 None None None))))
   \<and> Some (SCRadixNode 31 None 1 (Some [16])
        (Some (SCRadixNode 32 (Some \<lparr> bitlen = 32, stream = [192, 168, 0, 0],
              user_data = [SCRadixUserData 32 1], user_data_result = 0 \<rparr>) 0 None None None))
        (Some (SCRadixNode 32 (Some \<lparr> bitlen = 32, stream = [192, 168, 0, 1],
              user_data = [SCRadixUserData 32 2], user_data_result = 0 \<rparr>) 0 None None None))) \<noteq> Some (SCRadixNode 31 None 0 None
        (Some (SCRadixNode 32 (Some \<lparr> bitlen = 32, stream = [192, 168, 0, 0],
              user_data = [SCRadixUserData 32 1], user_data_result = 0 \<rparr>) 0 None None None))
        (Some (SCRadixNode 32 (Some \<lparr> bitlen = 32, stream = [192, 168, 0, 1],
              user_data = [SCRadixUserData 32 2], user_data_result = 0 \<rparr>) 0 None None None)))
   \<and> netmasks_in_use (SCRadixNode 31 None 0 None
        (Some (SCRadixNode 32 (Some \<lparr> bitlen = 32, stream = [192, 168, 0, 0],
              user_data = [SCRadixUserData 32 1], user_data_result = 0 \<rparr>) 0 None None None))
        (Some (SCRadixNode 32 (Some \<lparr> bitlen = 32, stream = [192, 168, 0, 1],
              user_data = [SCRadixUserData 32 2], user_data_result = 0 \<rparr>) 0 None None None))) = []
   \<and> netmasks_in_use (SCRadixNode 31 None 1 (Some [16])
        (Some (SCRadixNode 32 (Some \<lparr> bitlen = 32, stream = [192, 168, 0, 0],
              user_data = [SCRadixUserData 32 1], user_data_result = 0 \<rparr>) 0 None None None))
        (Some (SCRadixNode 32 (Some \<lparr> bitlen = 32, stream = [192, 168, 0, 1],
              user_data = [SCRadixUserData 32 2], user_data_result = 0 \<rparr>) 0 None None None))) = [16]"
proof -
  let ?L0 = "SCRadixNode 32 (Some \<lparr> bitlen = 32, stream = [192, 168, 0, 0],
              user_data = [SCRadixUserData 32 1], user_data_result = 0 \<rparr>) 0 None None None"
  let ?L0b = "SCRadixNode 32 (Some \<lparr> bitlen = 32, stream = [192, 168, 0, 0],
              user_data = [SCRadixUserData 32 1, SCRadixUserData 16 9], user_data_result = 0 \<rparr>)
              0 None None None"
  let ?L1 = "SCRadixNode 32 (Some \<lparr> bitlen = 32, stream = [192, 168, 0, 1],
              user_data = [SCRadixUserData 32 2], user_data_result = 0 \<rparr>) 0 None None None"
  let ?T2 = "SCRadixNode 31 None 0 None (Some ?L0) (Some ?L1)"
  let ?T3 = "SCRadixNode 31 None 1 (Some [16]) (Some ?L0b) (Some ?L1)"
  let ?T4 = "SCRadixNode 31 None 1 (Some [16]) (Some ?L0) (Some ?L1)"
  have a1: "SCRadixAddKeyIPV4 (Some [192, 168, 0, 0]) None 1 =
              Inr (Some [192, 168, 0, 0], Some [], Some ?L0)"
    by (simp add: add_key_defs)
  have a2: "SCRadixAddKeyIPV4 (Some [192, 168, 0, 1]) (Some ?L0) 2 =
              Inr (Some [192, 168, 0, 1], Some [GoRight], Some ?T2)"
    by (simp add: add_key_defs)
  have a3: "SCRadixAddKeyIPV4Netblock (Some [192, 168, 0, 0]) (Some ?T2) 9 16 =
              Inr (Some [192, 168, 0, 0], None, Some ?T3)"
    by (simp add: add_key_defs)
  have r: "SCRadixRemoveKeyIPV4Netblock (Some [192, 168, 0, 0]) (Some ?T3) 16 = Inr (Some ?T4)"
    by (simp add: remove_key_defs)
  have n: "Some ?T4 \<noteq> Some ?T2" by simp
  have u2: "netmasks_in_use ?T2 = []" by (simp add: netmasks_in_use_def)
  have u4: "netmasks_in_use ?T4 = [16]" by (simp add: netmasks_in_use_def)
  show ?thesis using a1 a2 a3 r n u2 u4 by (intro conjI)
qed

subsection \<open>C6: the node returned by an insertion\<close>

text \<open>
  C6. An insertion of an IPv4 netblock should return the node that holds the prefix of
  the key. The host 10.0.0.0 is in the tree; the netblock 10.0.0.0/8 is added to the
  same prefix. The entry and the netmask are stored, and the call returns the null
  pointer: the branch for an existing prefix ends in \<^verbatim>\<open>return new_node\<close> when the
  netmask is the first one of the node that takes it, and \<^verbatim>\<open>new_node\<close> is null there.
\<close>

theorem C6_add_netblock_returns_null:
  "SCRadixAddKeyIPV4 (Some [10, 0, 0, 0]) None 7 =
     Inr (Some [10, 0, 0, 0], Some [],
          Some (SCRadixNode 32 (Some \<lparr> bitlen = 32, stream = [10, 0, 0, 0],
                  user_data = [SCRadixUserData 32 7], user_data_result = 0 \<rparr>)
                  0 None None None))
   \<and> SCRadixAddKeyIPV4Netblock (Some [10, 0, 0, 0])
       (Some (SCRadixNode 32 (Some \<lparr> bitlen = 32, stream = [10, 0, 0, 0],
                user_data = [SCRadixUserData 32 7], user_data_result = 0 \<rparr>)
                0 None None None)) 9 8 =
     Inr (Some [10, 0, 0, 0], None,
          Some (SCRadixNode 32 (Some \<lparr> bitlen = 32, stream = [10, 0, 0, 0],
                  user_data = [SCRadixUserData 32 7, SCRadixUserData 8 9],
                  user_data_result = 0 \<rparr>)
                  1 (Some [8]) None None))"
  by (simp add: add_key_defs)

subsection \<open>C7: duplicate insertions\<close>

text \<open>
  C7. A second insertion of a stored key should leave the tree as it is. The generic
  key of 32 bytes \<open>b\<close> (256 bits) is inserted twice. The second call compares the
  position of the stored node, 256, with the bit length narrowed to 8 bits, 0, does
  not recognise the node, and puts a second leaf for the same key above the first.
\<close>

theorem C7_duplicate_key_of_256_bits:
  "SCRadixAddKeyGeneric
     (Some [98, 98, 98, 98, 98, 98, 98, 98, 98, 98, 98, 98, 98, 98, 98, 98,
            98, 98, 98, 98, 98, 98, 98, 98, 98, 98, 98, 98, 98, 98, 98, 98]) 256 None 7 =
     Inr (Some [98, 98, 98, 98, 98, 98, 98, 98, 98, 98, 98, 98, 98, 98, 98, 98,
                98, 98, 98, 98, 98, 98, 98, 98, 98, 98, 98, 98, 98, 98, 98, 98], Some [],
          Some (SCRadixNode 256
                 (Some \<lparr> bitlen = 256,
                         stream = [98, 98, 98, 98, 98, 98, 98, 98, 98, 98, 98, 98, 98, 98, 98, 98,
                                   98, 98, 98, 98, 98, 98, 98, 98, 98, 98, 98, 98, 98, 98, 98, 98],
                         user_data = [SCRadixUserData 255 7], user_data_result = 0 \<rparr>)
                 0 None None None))
   \<and> SCRadixAddKeyGeneric
     (Some [98, 98, 98, 98, 98, 98, 98, 98, 98, 98, 98, 98, 98, 98, 98, 98,
            98, 98, 98, 98, 98, 98, 98, 98, 98, 98, 98, 98, 98, 98, 98, 98]) 256
     (Some (SCRadixNode 256
                 (Some \<lparr> bitlen = 256,
                         stream = [98, 98, 98, 98, 98, 98, 98, 98, 98, 98, 98, 98, 98, 98, 98, 98,
                                   98, 98, 98, 98, 98, 98, 98, 98, 98, 98, 98, 98, 98, 98, 98, 98],
                         user_data = [SCRadixUserData 255 7], user_data_result = 0 \<rparr>)
                 0 None None None)) 7 =
     Inr (Some [98, 98, 98, 98, 98, 98, 98, 98, 98, 98, 98, 98, 98, 98, 98, 98,
                98, 98, 98, 98, 98, 98, 98, 98, 98, 98, 98, 98, 98, 98, 98, 98], Some [],
          Some (SCRadixNode 256
                 (Some \<lparr> bitlen = 256,
                         stream = [98, 98, 98, 98, 98, 98, 98, 98, 98, 98, 98, 98, 98, 98, 98, 98,
                                   98, 98, 98, 98, 98, 98, 98, 98, 98, 98, 98, 98, 98, 98, 98, 98],
                         user_data = [SCRadixUserData 255 7], user_data_result = 0 \<rparr>)
                 0 None
                 (Some (SCRadixNode 256
                    (Some \<lparr> bitlen = 256,
                         stream = [98, 98, 98, 98, 98, 98, 98, 98, 98, 98, 98, 98, 98, 98, 98, 98,
                                   98, 98, 98, 98, 98, 98, 98, 98, 98, 98, 98, 98, 98, 98, 98, 98],
                         user_data = [SCRadixUserData 255 7], user_data_result = 0 \<rparr>)
                    0 None None None))
                 None))"
  by (simp add: add_key_defs)

subsection \<open>C8: invalid keys\<close>

text \<open>
  C8. An insertion with a null key stream should fail with no node returned and the
  tree unchanged. With a bit length of 32 the key is chopped before
  \<^verbatim>\<open>SCRadixCreatePrefix\<close> checks it, and the chopping reads and writes through the null
  pointer, whatever the tree, the user and the netmask are.
\<close>

theorem C8_null_key_is_dereferenced:
  "SCRadixAddKey None 32 tree u nm = Inl NullDeref"
  by (simp add: SCRadixAddKey_def SCRadixChopIPAddressAgainstNetmask_def)

text \<open>The other half of the statement holds: a bit length that is zero or not a multiple
  of 8 makes the insertion return the null pointer and leave the tree alone.\<close>

lemma add_key_invalid_bitlen:
  assumes "key_bitlen mod 8 \<noteq> 0 \<or> key_bitlen = 0" and "key_bitlen div 8 \<le> length s"
  shows "\<exists>ks. SCRadixAddKey (Some s) key_bitlen tree u nm = Inr (ks, None, tree)"
  using assms
  by (auto simp: SCRadixAddKey_def SCRadixChopIPAddressAgainstNetmask_def
      SCRadixCreatePrefix_def Let_def)

subsection \<open>C9: user data lists are never empty\<close>

text \<open>
  C9. In every tree that insertions, removals and lookups build from the empty tree,
  every prefix has a user data list that is not empty, so the selection routine of the
  lookup, which reads the head of the list without a check, never fails on a prefix of
  the tree.
\<close>

theorem C9_user_data_never_empty:
  assumes "reachable t" and "deref t p = Some n" and "prefix n = Some pfx"
  shows "user_data pfx \<noteq> [] \<and>
         (\<forall>e. SCRadixPrefixContainNetmaskAndSetUserData (prefix n) bl exact_match \<noteq> Inl e)"
proof -
  have "all_tree (prefix_ok False) t" using assms(1) by (rule reachable_prefix_ok)
  then have "all_nodes (prefix_ok False) n" using assms(2) by (rule all_tree_deref)
  then have "prefix_ok False n" by (rule all_nodes_self)
  then have ne: "user_data pfx \<noteq> []" using assms(3) by (simp add: prefix_ok_def)
  then show ?thesis using assms(3)
    by (auto simp: SCRadixPrefixContainNetmaskAndSetUserData_def split: list.splits)
qed

text \<open>The tree after inserting 10.1.0.0/24 and 10.1.0.0/16 and removing 10.1.0.0/24.\<close>

theorem C9_user_data_never_empty_witness:
  "reachable (Some (SCRadixNode 32 (Some \<lparr> bitlen = 32, stream = [10, 1, 0, 0],
              user_data = [SCRadixUserData 16 9], user_data_result = 0 \<rparr>)
              1 (Some [16]) None None))
   \<and> (\<forall>e. SCRadixPrefixContainNetmaskAndSetUserData
              (Some \<lparr> bitlen = 32, stream = [10, 1, 0, 0],
                 user_data = [SCRadixUserData 16 9], user_data_result = 0 \<rparr>) 32 True \<noteq> Inl e)"
proof -
  let ?A1 = "SCRadixNode 32 (Some \<lparr> bitlen = 32, stream = [10, 1, 0, 0],
              user_data = [SCRadixUserData 24 7], user_data_result = 0 \<rparr>)
              1 (Some [24]) None None"
  let ?A2 = "SCRadixNode 32 (Some \<lparr> bitlen = 32, stream = [10, 1, 0, 0],
              user_data = [SCRadixUserData 24 7, SCRadixUserData 16 9], user_data_result = 0 \<rparr>)
              2 (Some [24, 16]) None None"
  let ?A3 = "SCRadixNode 32 (Some \<lparr> bitlen = 32, stream = [10, 1, 0, 0],
              user_data = [SCRadixUserData 16 9], user_data_result = 0 \<rparr>)
              1 (Some [16]) None None"
  have e1: "SCRadixAddKey (Some [10, 1, 0, 0]) 32 None 7 24 = Inr (Some [10, 1, 0, 0], Some [], Some ?A1)"
    by (simp add: add_key_defs)
  have e2: "SCRadixAddKey (Some [10, 1, 0, 0]) 32 (Some ?A1) 9 16 =
              Inr (Some [10, 1, 0, 0], Some [], Some ?A2)"
    by (simp add: add_key_defs)
  have e3: "SCRadixRemoveKey (Some [10, 1, 0, 0]) 32 (Some ?A2) 24 = Inr (Some ?A3)"
    by (simp add: remove_key_defs)
  have r: "reachable (Some ?A3)"
    by (rule reachable_remove [OF reachable_add [OF reachable_add [OF reachable_empty e1] e2] e3])
  have here: "deref (Some ?A3) [] = Some ?A3" by (simp add: deref_def)
  show ?thesis
    using r C9_user_data_never_empty [OF r here, of _ 32 True] by simp
qed

subsection \<open>C10: exact lookup of generic keys\<close>

text \<open>
  C10. In every tree that insertions of generic keys build from the empty tree, the
  exact lookup of a generic key whose bit length is a positive multiple of 8 finds
  nothing, also for a key that has been inserted: every stored entry carries the
  netmask 255, and the exact selection wants the netmask of the head entry to be the
  bit length of the query.
\<close>

theorem C10_generic_exact_find_misses:
  assumes "generic_inserted t"
    and "key_bitlen mod 8 = 0" and "0 < key_bitlen" and "key_bitlen div 8 \<le> length ks"
  shows "SCRadixFindKeyGeneric (Some ks) key_bitlen t = Inr (None, t)"
  unfolding SCRadixFindKeyGeneric_def
  using generic_inserted_prefix_ok [OF assms(1)] assms(2-4) by (rule find_exact_miss)

text \<open>The key \<open>ab\<close> is inserted and then looked up.\<close>

theorem C10_generic_exact_find_misses_witness:
  "generic_inserted (Some (SCRadixNode 16 (Some \<lparr> bitlen = 16, stream = [97, 98],
              user_data = [SCRadixUserData 255 7], user_data_result = 0 \<rparr>) 0 None None None))
   \<and> SCRadixFindKeyGeneric (Some [97, 98]) 16
        (Some (SCRadixNode 16 (Some \<lparr> bitlen = 16, stream = [97, 98],
              user_data = [SCRadixUserData 255 7], user_data_result = 0 \<rparr>) 0 None None None)) =
       Inr (None, Some (SCRadixNode 16 (Some \<lparr> bitlen = 16, stream = [97, 98],
              user_data = [SCRadixUserData 255 7], user_data_result = 0 \<rparr>) 0 None None None))"
proof -
  let ?T = "Some (SCRadixNode 16 (Some \<lparr> bitlen = 16, stream = [97, 98],
              user_data = [SCRadixUserData 255 7], user_data_result = 0 \<rparr>) 0 None None None)"
  have e1: "SCRadixAddKeyGeneric (Some [97, 98]) 16 None 7 = Inr (Some [97, 98], Some [], ?T)"
    by (simp add: add_key_defs)
  have g: "generic_inserted ?T"
    by (rule generic_add [OF generic_empty e1])
  show ?thesis
    using g C10_generic_exact_find_misses [OF g, of 16 "[97, 98]"] by simp
qed

end
